(* ===== verification/Prelude.thy ===== *)
theory Prelude
  imports Main "HOL-Library.Multiset"
begin

text \<open>
  Shared vocabulary of the development: the types that name the program's values
  (millisecond timestamps, identifiers), the JavaScript library functions the services
  call on arrays (\<open>Array.prototype.findIndex\<close>, \<open>find\<close>, \<open>filter\<close>) and on numbers
  (decimal printing by \<open>Number.prototype.toString\<close> and template literals), and the
  generic lemmas on them that the component theories use through \<open>simp\<close>.
\<close>

named_theorems js_simps \<open>evaluation rules of the modelled JavaScript library calls\<close>

type_synonym timestamp = int
type_synonym uuid = string

subsection \<open>Arrays\<close>

text \<open>
  \<open>Array.prototype.findIndex\<close> returns the first index whose element satisfies the
  predicate, and \<open>-1\<close> when there is none; the result is a JavaScript number, here an
  \<open>int\<close>, so that \<open>-1\<close> is a value of the model as it is of the code.
\<close>

fun js_findIndex :: "('a \<Rightarrow> bool) \<Rightarrow> 'a list \<Rightarrow> int" where
  "js_findIndex P [] = -1"
| "js_findIndex P (x # xs) =
     (if P x then 0 else (let i = js_findIndex P xs in if i = -1 then -1 else i + 1))"

subsection \<open>Decimal printing of integers\<close>

text \<open>
  \<open>String(n)\<close> of an integral JavaScript number below \<open>10^21\<close> in magnitude is its
  decimal notation, with a leading minus sign for negative values and no leading zeros.
  Millisecond timestamps are far below that bound.
\<close>

definition digit_char :: "nat \<Rightarrow> char" where
  "digit_char d = char_of (48 + d)"

fun nat_to_string :: "nat \<Rightarrow> string" where
  "nat_to_string n =
     (if n < 10 then [digit_char n] else nat_to_string (n div 10) @ [digit_char (n mod 10)])"

declare nat_to_string.simps [simp del]

definition int_to_string :: "int \<Rightarrow> string" where
  "int_to_string i =
     (if i < 0 then CHR ''-'' # nat_to_string (nat (- i)) else nat_to_string (nat i))"

definition is_dec_digit :: "char \<Rightarrow> bool" where
  "is_dec_digit c \<longleftrightarrow> (48::nat) \<le> of_char c \<and> of_char c \<le> (57::nat)"

definition digit_val :: "char \<Rightarrow> nat" where
  "digit_val c = of_char c - 48"

text \<open>Reading a run of decimal digits back, most significant first.\<close>

definition digits_value :: "string \<Rightarrow> nat" where
  "digits_value ds = foldl (\<lambda>acc c. 10 * acc + digit_val c) 0 ds"

subsection \<open>Lemmas on arrays\<close>

lemma js_findIndex_eq:
  "js_findIndex P xs =
     (if \<exists>x \<in> set xs. P x then int (length (takeWhile (\<lambda>x. \<not> P x) xs)) else -1)"
  by (induction xs) (auto simp: Let_def)

lemma js_findIndex_none [js_simps]:
  "js_findIndex P xs = -1 \<longleftrightarrow> (\<forall>x \<in> set xs. \<not> P x)"
  by (simp add: js_findIndex_eq)

lemma takeWhile_length_less:
  "x \<in> set xs \<Longrightarrow> \<not> Q x \<Longrightarrow> length (takeWhile Q xs) < length xs"
  by (induction xs) auto

lemma js_findIndex_found:
  assumes "x \<in> set xs" and "P x"
  shows "js_findIndex P xs = int (length (takeWhile (\<lambda>x. \<not> P x) xs))"
    and "length (takeWhile (\<lambda>x. \<not> P x) xs) < length xs"
    and "P (xs ! length (takeWhile (\<lambda>x. \<not> P x) xs))"
  using assms takeWhile_length_less [of x xs "\<lambda>x. \<not> P x"]
    nth_length_takeWhile [of "\<lambda>x. \<not> P x" xs]
  by (auto simp: js_findIndex_eq)

lemma takeWhile_not_find:
  "\<exists>x \<in> set xs. P x \<Longrightarrow> find P xs = Some (xs ! length (takeWhile (\<lambda>x. \<not> P x) xs))"
  by (induction xs) auto

subsection \<open>Lemmas on decimal printing\<close>

lemma of_char_digit_char [simp]: "d < 10 \<Longrightarrow> of_char (digit_char d) = 48 + d"
  by (simp add: digit_char_def)

lemma digit_char_0 [simp]: "digit_char 0 = CHR ''0''"
  by code_simp

lemma digit_char_is_dec_digit [simp]: "d < 10 \<Longrightarrow> is_dec_digit (digit_char d)"
  by (simp add: digit_char_def is_dec_digit_def)

lemma digit_val_digit_char [simp]: "d < 10 \<Longrightarrow> digit_val (digit_char d) = d"
  by (simp add: digit_char_def digit_val_def)

lemma nat_to_string_digits: "c \<in> set (nat_to_string n) \<Longrightarrow> is_dec_digit c"
proof (induction n rule: nat_to_string.induct)
  case (1 n)
  then show ?case
    by (cases "n < 10") (auto simp: nat_to_string.simps [of n])
qed

lemma nat_to_string_ne [simp]: "nat_to_string n \<noteq> []"
  by (simp add: nat_to_string.simps [of n])

lemma digits_value_snoc [simp]:
  "digits_value (ds @ [c]) = 10 * digits_value ds + digit_val c"
  by (simp add: digits_value_def)

lemma digits_value_nat_to_string [simp]: "digits_value (nat_to_string n) = n"
proof (induction n rule: nat_to_string.induct)
  case (1 n)
  then show ?case
    by (cases "n < 10") (simp_all add: nat_to_string.simps [of n] digits_value_def)
qed

end
