(* ===== verification/Json.thy ===== *)
theory Json
  imports Prelude
begin

text \<open>
  The JSON text the task service keeps in local storage. \<open>JSON.stringify\<close> and
  \<open>JSON.parse\<close> are JavaScript built-ins, not code of the repository, so this theory
  models them from the ECMAScript specification, on the values the program stores:
  \<open>null\<close>, booleans, integral numbers, strings, arrays and objects.
  \<^item> \<open>json_stringify\<close> is \<open>JSON.stringify\<close> without indentation (SerializeJSONProperty,
    QuoteJSONString): no white space, members in the object's key order, the escapes
    \<open>\"\<close>, \<open>\\\<close>, \<open>\b\<close>, \<open>\f\<close>, \<open>\n\<close>, \<open>\r\<close>, \<open>\t\<close> and \<open>\u00xx\<close> (lower-case hex)
    for the other control characters.
  \<^item> \<open>JSON_parse\<close> is \<open>JSON.parse\<close> without reviver, as a recursive-descent parser with
    fuel; \<open>None\<close> is the \<open>SyntaxError\<close> it throws. It accepts the JSON grammar except
    numbers with a fraction or an exponent and \<open>\u\<close> escapes above \<open>0xFF\<close> (a
    \<open>char\<close> is one byte): neither occurs in text that \<open>json_stringify\<close> produced from
    the program's values.
  The main result is the round trip \<open>JSON_parse (json_stringify v) = Some v\<close>, which is
  what makes the read-modify-write protocol of the task store lossless.
\<close>

datatype json =
    JNull
  | JBool bool
  | JNum int
  | JStr string
  | JArr "json list"
  | JObj "(string \<times> json) list"

subsection \<open>Printing\<close>

definition hex_char :: "nat \<Rightarrow> char" where
  "hex_char d = (if d < 10 then digit_char d else char_of (87 + d))"

abbreviation backslash :: char where
  "backslash \<equiv> CHR 0x5C"

abbreviation dquote :: char where
  "dquote \<equiv> CHR 0x22"

definition json_escape_char :: "char \<Rightarrow> string" where
  "json_escape_char c =
     (if c = dquote then [backslash, dquote]
      else if c = backslash then [backslash, backslash]
      else if c = CHR 0x08 then [backslash, CHR ''b'']
      else if c = CHR 0x0C then [backslash, CHR ''f'']
      else if c = CHR 0x0A then [backslash, CHR ''n'']
      else if c = CHR 0x0D then [backslash, CHR ''r'']
      else if c = CHR 0x09 then [backslash, CHR ''t'']
      else if of_char c < (32::nat) then
        backslash # ''u00'' @ [hex_char (of_char c div 16), hex_char (of_char c mod 16)]
      else [c])"

definition json_quote :: "string \<Rightarrow> string" where
  "json_quote s = dquote # concat (map json_escape_char s) @ [dquote]"

fun join_commas :: "string list \<Rightarrow> string" where
  "join_commas [] = []"
| "join_commas [x] = x"
| "join_commas (x # y # zs) = x @ CHR '','' # join_commas (y # zs)"

fun json_stringify :: "json \<Rightarrow> string" where
  "json_stringify JNull = ''null''"
| "json_stringify (JBool b) = (if b then ''true'' else ''false'')"
| "json_stringify (JNum i) = int_to_string i"
| "json_stringify (JStr s) = json_quote s"
| "json_stringify (JArr vs) = CHR ''['' # join_commas (map json_stringify vs) @ '']''"
| "json_stringify (JObj kvs) =
     CHR ''{'' # join_commas (map (\<lambda>(k, v). json_quote k @ CHR '':'' # json_stringify v) kvs)
       @ ''}''"

subsection \<open>Parsing\<close>

definition is_json_ws :: "char \<Rightarrow> bool" where
  "is_json_ws c \<longleftrightarrow> c \<in> {CHR 0x20, CHR 0x09, CHR 0x0A, CHR 0x0D}"

definition skip_ws :: "string \<Rightarrow> string" where
  "skip_ws s = dropWhile is_json_ws s"

definition hex_val :: "char \<Rightarrow> nat option" where
  "hex_val c =
     (let n = of_char c :: nat in
      if 48 \<le> n \<and> n \<le> 57 then Some (n - 48)
      else if 97 \<le> n \<and> n \<le> 102 then Some (n - 87)
      else if 65 \<le> n \<and> n \<le> 70 then Some (n - 55)
      else None)"

definition parse_hex4 :: "string \<Rightarrow> char option" where
  "parse_hex4 hs =
     (case those (map hex_val hs) of
        Some [a, b, c, d] \<Rightarrow>
          (let n = ((a * 16 + b) * 16 + c) * 16 + d in if n < 256 then Some (char_of n) else None)
      | _ \<Rightarrow> None)"

definition unescape :: "char \<Rightarrow> char option" where
  "unescape e =
     (if e = dquote then Some (dquote)
      else if e = backslash then Some (backslash)
      else if e = CHR ''/'' then Some (CHR ''/'')
      else if e = CHR ''b'' then Some (CHR 0x08)
      else if e = CHR ''f'' then Some (CHR 0x0C)
      else if e = CHR ''n'' then Some (CHR 0x0A)
      else if e = CHR ''r'' then Some (CHR 0x0D)
      else if e = CHR ''t'' then Some (CHR 0x09)
      else None)"

text \<open>The body of a string literal after its opening quote: the string and what follows it.\<close>

fun parse_string :: "string \<Rightarrow> (string \<times> string) option" where
  "parse_string [] = None"
| "parse_string (c # r) =
     (if c = dquote then Some ([], r)
      else if c = backslash then
        (case r of
           [] \<Rightarrow> None
         | e # r' \<Rightarrow>
             (if e = CHR ''u'' then
                (case parse_hex4 (take 4 r') of
                   None \<Rightarrow> None
                 | Some x \<Rightarrow> map_option (\<lambda>(s, rest). (x # s, rest)) (parse_string (drop 4 r')))
              else
                (case unescape e of
                   None \<Rightarrow> None
                 | Some x \<Rightarrow> map_option (\<lambda>(s, rest). (x # s, rest)) (parse_string r'))))
      else if of_char c < (32::nat) then None
      else map_option (\<lambda>(s, rest). (c # s, rest)) (parse_string r))"

text \<open>
  A number: an optional minus sign and an integer part without leading zeros; the
  digits run as far as they go.
\<close>

definition parse_nat_digits :: "string \<Rightarrow> (nat \<times> string) option" where
  "parse_nat_digits s =
     (let ds = takeWhile is_dec_digit s; rest = dropWhile is_dec_digit s in
      if ds = [] then None
      else if hd ds = CHR ''0'' \<and> length ds > 1 then None
      else Some (digits_value ds, rest))"

definition parse_number :: "string \<Rightarrow> (int \<times> string) option" where
  "parse_number s =
     (case s of
        c # r \<Rightarrow>
          if c = CHR ''-'' then map_option (\<lambda>(n, rest). (- int n, rest)) (parse_nat_digits r)
          else map_option (\<lambda>(n, rest). (int n, rest)) (parse_nat_digits s)
      | [] \<Rightarrow> None)"

text \<open>
  The value parser, with the array and object parsers it calls. Every call spends one
  unit of fuel; \<open>JSON_parse\<close> gives one more than the length of the text, which is
  enough (\<open>json_parse_stringify\<close>).
\<close>

fun parse_value :: "nat \<Rightarrow> string \<Rightarrow> (json \<times> string) option"
and parse_elems :: "nat \<Rightarrow> string \<Rightarrow> (json list \<times> string) option"
and parse_members :: "nat \<Rightarrow> string \<Rightarrow> ((string \<times> json) list \<times> string) option" where
  "parse_value 0 s = None"
| "parse_value (Suc n) s =
     (case skip_ws s of
        [] \<Rightarrow> None
      | c # r \<Rightarrow>
          if c = CHR ''n'' then (if take 3 r = ''ull'' then Some (JNull, drop 3 r) else None)
          else if c = CHR ''t'' then (if take 3 r = ''rue'' then Some (JBool True, drop 3 r) else None)
          else if c = CHR ''f'' then (if take 4 r = ''alse'' then Some (JBool False, drop 4 r) else None)
          else if c = dquote then map_option (\<lambda>(s, rest). (JStr s, rest)) (parse_string r)
          else if c = CHR ''['' then
            (case skip_ws r of
               d # r' \<Rightarrow> if d = CHR '']'' then Some (JArr [], r')
                         else map_option (\<lambda>(vs, rest). (JArr vs, rest)) (parse_elems n r)
             | [] \<Rightarrow> None)
          else if c = CHR ''{'' then
            (case skip_ws r of
               d # r' \<Rightarrow> if d = CHR ''}'' then Some (JObj [], r')
                         else map_option (\<lambda>(kvs, rest). (JObj kvs, rest)) (parse_members n r)
             | [] \<Rightarrow> None)
          else map_option (\<lambda>(i, rest). (JNum i, rest)) (parse_number (c # r)))"
| "parse_elems 0 s = None"
| "parse_elems (Suc n) s =
     (case parse_value n s of
        None \<Rightarrow> None
      | Some (v, r) \<Rightarrow>
          (case skip_ws r of
             d # r' \<Rightarrow>
               if d = CHR '','' then map_option (\<lambda>(vs, rest). (v # vs, rest)) (parse_elems n r')
               else if d = CHR '']'' then Some ([v], r')
               else None
           | [] \<Rightarrow> None))"
| "parse_members 0 s = None"
| "parse_members (Suc n) s =
     (case skip_ws s of
        q # r \<Rightarrow>
          if q \<noteq> dquote then None
          else
            (case parse_string r of
               None \<Rightarrow> None
             | Some (k, r1) \<Rightarrow>
                 (case skip_ws r1 of
                    d # r2 \<Rightarrow>
                      if d \<noteq> CHR '':'' then None
                      else
                        (case parse_value n r2 of
                           None \<Rightarrow> None
                         | Some (v, r3) \<Rightarrow>
                             (case skip_ws r3 of
                                e # r4 \<Rightarrow>
                                  if e = CHR '','' then
                                    map_option (\<lambda>(kvs, rest). ((k, v) # kvs, rest)) (parse_members n r4)
                                  else if e = CHR ''}'' then Some ([(k, v)], r4)
                                  else None
                              | [] \<Rightarrow> None))
                  | [] \<Rightarrow> None))
      | [] \<Rightarrow> None)"

definition JSON_parse :: "string \<Rightarrow> json option" where
  "JSON_parse s =
     (case parse_value (Suc (length s)) s of
        Some (v, rest) \<Rightarrow> if skip_ws rest = [] then Some v else None
      | None \<Rightarrow> None)"

text \<open>
  What may follow a printed number for the parser to stop where the printer stopped:
  numbers are read as far as the digits go, so the next character must not be a digit.
\<close>

definition rest_ok :: "string \<Rightarrow> bool" where
  "rest_ok r \<longleftrightarrow> (case r of [] \<Rightarrow> True | c # _ \<Rightarrow> \<not> is_dec_digit c)"

subsection \<open>Round trip: parsing what was printed\<close>

text \<open>
  Strings: each escaped character is read back by one step of \<open>parse_string\<close>;
  numbers: the digits are read back and no leading zero is printed; values, arrays and
  objects: by induction on the value, one element or member per unit of fuel.
\<close>
lemma skip_ws_Cons [simp]: "\<not> is_json_ws c \<Longrightarrow> skip_ws (c # r) = c # r"
  by (simp add: skip_ws_def)

lemma skip_ws_Nil [simp]: "skip_ws [] = []"
  by (simp add: skip_ws_def)

lemma hex_val_hex_char [simp]: "d < 16 \<Longrightarrow> hex_val (hex_char d) = Some d"
  by (auto simp: hex_val_def hex_char_def digit_char_def Let_def)

lemma parse_string_escape:
  "parse_string (json_escape_char c @ r) = map_option (\<lambda>(s, rest). (c # s, rest)) (parse_string r)"
proof -
  have ctrl: "parse_hex4 [CHR ''0'', CHR ''0'', hex_char (of_char c div 16), hex_char (of_char c mod 16)]
      = Some c"
    if lt: "of_char c < (32::nat)"
  proof -
    have h0: "hex_val (CHR ''0'') = Some 0" by (simp add: hex_val_def)
    have hi: "of_char c div 16 < (16::nat)" using lt by simp
    have lo: "of_char c mod 16 < (16::nat)" by simp
    have "those (map hex_val [CHR ''0'', CHR ''0'', hex_char (of_char c div 16), hex_char (of_char c mod 16)])
        = Some [0, 0, of_char c div 16, of_char c mod 16]"
      by (simp add: h0 hi lo)
    moreover have "(of_char c div 16) * 16 + of_char c mod 16 = (of_char c :: nat)"
      by simp
    ultimately show ?thesis using lt by (simp add: parse_hex4_def Let_def)
  qed
  show ?thesis
    by (auto simp: json_escape_char_def unescape_def ctrl)
qed

lemma parse_string_quote:
  "parse_string (concat (map json_escape_char s) @ dquote # r) = Some (s, r)"
  by (induction s) (simp_all add: parse_string_escape)

lemma nat_to_string_leading_zero:
  "hd (nat_to_string n) = CHR ''0'' \<Longrightarrow> nat_to_string n = ''0''"
proof (induction n rule: nat_to_string.induct)
  case (1 n)
  show ?case
  proof (cases "n < 10")
    case True
    with "1.prems" have "digit_val (digit_char n) = digit_val (CHR ''0'')"
      by (simp add: nat_to_string.simps [of n])
    with True have "n = 0" by (simp add: digit_val_def)
    then show ?thesis by (simp add: nat_to_string.simps [of 0])
  next
    case False
    with "1.prems" have "hd (nat_to_string (n div 10)) = CHR ''0''"
      by (simp add: nat_to_string.simps [of n])
    with False "1.IH" have "nat_to_string (n div 10) = ''0''" by simp
    then have "digits_value (nat_to_string (n div 10)) = 0"
      by (simp add: digits_value_def digit_val_def)
    with False show ?thesis by simp
  qed
qed

lemma takeWhile_digits_append:
  assumes "rest_ok rest"
  shows "takeWhile is_dec_digit (nat_to_string n @ rest) = nat_to_string n"
    and "dropWhile is_dec_digit (nat_to_string n @ rest) = rest"
  using assms nat_to_string_digits [of _ n]
  by (auto simp: rest_ok_def takeWhile_append dropWhile_append split: list.splits)

lemma parse_nat_digits_nat_to_string:
  "rest_ok rest \<Longrightarrow> parse_nat_digits (nat_to_string n @ rest) = Some (n, rest)"
  using nat_to_string_leading_zero [of n]
  by (auto simp: parse_nat_digits_def Let_def takeWhile_digits_append)

lemma nat_to_string_hd:
  "\<exists>c r. nat_to_string n = c # r \<and> is_dec_digit c"
  using nat_to_string_digits [of _ n] nat_to_string_ne [of n]
  by (cases "nat_to_string n") auto

lemma parse_number_int_to_string:
  "rest_ok rest \<Longrightarrow> parse_number (int_to_string i @ rest) = Some (i, rest)"
proof (cases "i < 0")
  case True
  then show "rest_ok rest \<Longrightarrow> ?thesis"
    by (simp add: int_to_string_def parse_number_def parse_nat_digits_nat_to_string)
next
  case False
  obtain c r where cr: "nat_to_string (nat i) = c # r" and d: "is_dec_digit c"
    using nat_to_string_hd by blast
  from d have "c \<noteq> CHR ''-''" by (auto simp: is_dec_digit_def)
  with False cr show "rest_ok rest \<Longrightarrow> ?thesis"
    using parse_nat_digits_nat_to_string [of rest "nat i"]
    by (simp add: int_to_string_def parse_number_def)
qed

lemma int_to_string_hd:
  "\<exists>c r. int_to_string i = c # r \<and> (c = CHR ''-'' \<or> is_dec_digit c)"
  using nat_to_string_hd [of "nat i"] by (auto simp: int_to_string_def)

lemma dec_digit_not_syntax:
  "is_dec_digit c \<Longrightarrow>
     c \<noteq> CHR ''n'' \<and> c \<noteq> CHR ''t'' \<and> c \<noteq> CHR ''f'' \<and> c \<noteq> dquote \<and> c \<noteq> CHR ''['' \<and>
     c \<noteq> CHR ''{'' \<and> \<not> is_json_ws c"
  by (auto simp: is_dec_digit_def is_json_ws_def)

lemma parse_value_other:
  "\<not> is_json_ws c \<Longrightarrow> c \<noteq> CHR ''n'' \<Longrightarrow> c \<noteq> CHR ''t'' \<Longrightarrow> c \<noteq> CHR ''f'' \<Longrightarrow>
   c \<noteq> dquote \<Longrightarrow> c \<noteq> CHR ''['' \<Longrightarrow> c \<noteq> CHR ''{'' \<Longrightarrow>
   parse_value (Suc n) (c # r) = map_option (\<lambda>(i, rest). (JNum i, rest)) (parse_number (c # r))"
  by (simp only: parse_value.simps skip_ws_Cons list.case if_False simp_thms)

lemma parse_value_lit:
  "parse_value (Suc n) (CHR ''n'' # CHR ''u'' # CHR ''l'' # CHR ''l'' # r) = Some (JNull, r)"
  "parse_value (Suc n) (CHR ''t'' # CHR ''r'' # CHR ''u'' # CHR ''e'' # r) = Some (JBool True, r)"
  "parse_value (Suc n) (CHR ''f'' # CHR ''a'' # CHR ''l'' # CHR ''s'' # CHR ''e'' # r) =
     Some (JBool False, r)"
  by (simp_all add: is_json_ws_def)

lemma parse_value_str:
  "parse_value (Suc n) (dquote # r) = map_option (\<lambda>(s, rest). (JStr s, rest)) (parse_string r)"
  by (simp add: is_json_ws_def)

lemma parse_value_arr:
  "parse_value (Suc n) (CHR ''['' # r) =
     (case skip_ws r of
        d # r' \<Rightarrow> if d = CHR '']'' then Some (JArr [], r')
                  else map_option (\<lambda>(vs, rest). (JArr vs, rest)) (parse_elems n r)
      | [] \<Rightarrow> None)"
  by (simp add: is_json_ws_def)

lemma parse_value_obj:
  "parse_value (Suc n) (CHR ''{'' # r) =
     (case skip_ws r of
        d # r' \<Rightarrow> if d = CHR ''}'' then Some (JObj [], r')
                  else map_option (\<lambda>(kvs, rest). (JObj kvs, rest)) (parse_members n r)
      | [] \<Rightarrow> None)"
  by (simp add: is_json_ws_def)

lemma parse_value_num:
  assumes "rest_ok rest"
  shows "parse_value (Suc n) (int_to_string i @ rest) = Some (JNum i, rest)"
proof -
  obtain c r where cr: "int_to_string i = c # r" and c: "c = CHR ''-'' \<or> is_dec_digit c"
    using int_to_string_hd by blast
  have "\<not> is_json_ws c \<and> c \<noteq> CHR ''n'' \<and> c \<noteq> CHR ''t'' \<and> c \<noteq> CHR ''f'' \<and> c \<noteq> dquote \<and>
    c \<noteq> CHR ''['' \<and> c \<noteq> CHR ''{''"
    using c
  proof
    assume "c = CHR ''-''"
    then show ?thesis by (simp add: is_json_ws_def)
  next
    assume "is_dec_digit c"
    then show ?thesis using dec_digit_not_syntax [of c] by blast
  qed
  then have "parse_value (Suc n) (c # r @ rest) =
      map_option (\<lambda>(i, rest). (JNum i, rest)) (parse_number (c # r @ rest))"
    using parse_value_other by blast
  then show ?thesis using assms parse_number_int_to_string [of rest i] by (simp add: cr)
qed

lemma rest_ok_syntax [simp]:
  "rest_ok (CHR '','' # r)" "rest_ok (CHR '']'' # r)" "rest_ok (CHR ''}'' # r)" "rest_ok []"
  by (simp_all add: rest_ok_def is_dec_digit_def)

lemma parse_elems_join:
  assumes IH: "\<And>v m rest. v \<in> set vs \<Longrightarrow> size v < m \<Longrightarrow> rest_ok rest \<Longrightarrow>
                 parse_value m (json_stringify v @ rest) = Some (v, rest)"
    and ne: "vs \<noteq> []" and fuel: "size_list size vs < m"
  shows "parse_elems m (join_commas (map json_stringify vs) @ CHR '']'' # rest) = Some (vs, rest)"
  using assms
proof (induction vs arbitrary: m rule: induct_list012)
  case 1
  then show ?case by simp
next
  case (2 v)
  then obtain m' where m: "m = Suc m'" and "size v < m'" by (cases m) auto
  with "2.prems"(1) have "parse_value m' (json_stringify v @ CHR '']'' # rest) = Some (v, CHR '']'' # rest)"
    by simp
  then show ?case by (simp add: m is_json_ws_def)
next
  case (3 v w ws)
  then obtain m' where m: "m = Suc m'" and fv: "size v < m'"
      and fw: "size_list size (w # ws) < m'"
    by (cases m) auto
  let ?r = "CHR '','' # join_commas (map json_stringify (w # ws)) @ CHR '']'' # rest"
  from "3.prems"(1) fv have "parse_value m' (json_stringify v @ ?r) = Some (v, ?r)"
    by simp
  moreover from "3.IH"(2) [of m'] "3.prems"(1) fw
  have "parse_elems m' (join_commas (map json_stringify (w # ws)) @ CHR '']'' # rest) = Some (w # ws, rest)"
    by simp
  ultimately show ?case by (simp add: m is_json_ws_def)
qed

lemma parse_members_step:
  "parse_members (Suc n) (json_quote k @ CHR '':'' # s) =
     (case parse_value n s of
        None \<Rightarrow> None
      | Some (v, r3) \<Rightarrow>
          (case skip_ws r3 of
             e # r4 \<Rightarrow>
               if e = CHR '','' then map_option (\<lambda>(kvs, rest). ((k, v) # kvs, rest)) (parse_members n r4)
               else if e = CHR ''}'' then Some ([(k, v)], r4)
               else None
           | [] \<Rightarrow> None))"
  by (simp add: json_quote_def parse_string_quote is_json_ws_def)

declare parse_value.simps(2) [simp del] parse_members.simps(2) [simp del]

lemma parse_members_join:
  assumes IH: "\<And>k v m rest. (k, v) \<in> set kvs \<Longrightarrow> size v < m \<Longrightarrow> rest_ok rest \<Longrightarrow>
                 parse_value m (json_stringify v @ rest) = Some (v, rest)"
    and ne: "kvs \<noteq> []" and fuel: "size_list (size_prod (\<lambda>_. 0) size) kvs < m"
  shows "parse_members m
           (join_commas (map (\<lambda>(k, v). json_quote k @ CHR '':'' # json_stringify v) kvs)
              @ CHR ''}'' # rest) = Some (kvs, rest)"
  using assms
proof (induction kvs arbitrary: m rule: induct_list012)
  case 1
  then show ?case by simp
next
  case (2 kv)
  obtain k v where kv: "kv = (k, v)" by (cases kv)
  from "2.prems" kv obtain m' where m: "m = Suc m'" and "size v < m'" by (cases m) auto
  with "2.prems"(1) kv have "parse_value m' (json_stringify v @ CHR ''}'' # rest) = Some (v, CHR ''}'' # rest)"
    by simp
  then show ?case by (simp add: kv m parse_members_step is_json_ws_def)
next
  case (3 kv lw ws)
  obtain k v where kv: "kv = (k, v)" by (cases kv)
  from "3.prems" kv obtain m' where m: "m = Suc m'" and fv: "size v < m'"
      and fw: "size_list (size_prod (\<lambda>_. 0) size) (lw # ws) < m'"
    by (cases m) auto
  let ?r = "CHR '','' # join_commas (map (\<lambda>(k, v). json_quote k @ CHR '':'' # json_stringify v) (lw # ws))
              @ CHR ''}'' # rest"
  have "(k, v) \<in> set (kv # lw # ws)" using kv by simp
  from "3.prems"(1) [OF this fv rest_ok_syntax(1)]
  have "parse_value m' (json_stringify v @ ?r) = Some (v, ?r)" by simp
  moreover have IH': "\<And>k v m rest. (k, v) \<in> set (lw # ws) \<Longrightarrow> size v < m \<Longrightarrow> rest_ok rest \<Longrightarrow>
                 parse_value m (json_stringify v @ rest) = Some (v, rest)"
    using "3.prems"(1) by (metis list.set_intros(2))
  have "parse_members m' (join_commas (map (\<lambda>(k, v). json_quote k @ CHR '':'' # json_stringify v) (lw # ws))
          @ CHR ''}'' # rest) = Some (lw # ws, rest)"
    by (rule "3.IH"(2) [OF IH' _ fw]) simp_all
  ultimately show ?case by (simp add: kv m parse_members_step is_json_ws_def)
qed

lemma join_commas_Cons:
  "join_commas (x # xs) = x @ (case xs of [] \<Rightarrow> [] | _ \<Rightarrow> CHR '','' # join_commas xs)"
  by (cases xs) auto

lemma json_stringify_first:
  "\<exists>c r. json_stringify v = c # r \<and> \<not> is_json_ws c \<and> c \<noteq> CHR '']'' \<and> c \<noteq> CHR ''}''"
proof (cases v)
  case (JNum i)
  obtain c r where cr: "int_to_string i = c # r" and c: "c = CHR ''-'' \<or> is_dec_digit c"
    using int_to_string_hd by blast
  from c have "\<not> is_json_ws c \<and> c \<noteq> CHR '']'' \<and> c \<noteq> CHR ''}''"
    by (auto simp: is_json_ws_def is_dec_digit_def)
  with JNum cr show ?thesis by simp
qed (simp_all add: is_json_ws_def json_quote_def)

theorem parse_value_stringify:
  "size v < n \<Longrightarrow> rest_ok rest \<Longrightarrow> parse_value n (json_stringify v @ rest) = Some (v, rest)"
proof (induction v arbitrary: n rest)
  case JNull
  then show ?case by (cases n) (simp_all add: parse_value_lit)
next
  case (JBool b)
  then show ?case by (cases n) (simp_all add: parse_value_lit)
next
  case (JNum i)
  then show ?case by (cases n) (simp_all add: parse_value_num)
next
  case (JStr s)
  then show ?case
    by (cases n) (simp_all add: parse_value_str json_quote_def parse_string_quote)
next
  case (JArr vs)
  then obtain n' where n: "n = Suc n'" and fuel: "size_list size vs < n'" by (cases n) auto
  show ?case
  proof (cases "vs = []")
    case True
    then show ?thesis by (simp add: n parse_value_arr is_json_ws_def)
  next
    case False
    have "parse_elems n' (join_commas (map json_stringify vs) @ CHR '']'' # rest) = Some (vs, rest)"
      using JArr.IH False fuel by (rule parse_elems_join)
    moreover obtain w ws where "vs = w # ws" using False by (cases vs) auto
    moreover obtain c r where "json_stringify w = c # r" "\<not> is_json_ws c" "c \<noteq> CHR '']''"
      using json_stringify_first [of w] by blast
    ultimately show ?thesis by (simp add: n parse_value_arr join_commas_Cons)
  qed
next
  case (JObj kvs)
  then obtain n' where n: "n = Suc n'" and fuel: "size_list (size_prod (\<lambda>_. 0) size) kvs < n'"
    by (cases n) auto
  show ?case
  proof (cases "kvs = []")
    case True
    then show ?thesis by (simp add: n parse_value_obj is_json_ws_def)
  next
    case False
    have IH: "\<And>k v m rest. (k, v) \<in> set kvs \<Longrightarrow> size v < m \<Longrightarrow> rest_ok rest \<Longrightarrow>
                 parse_value m (json_stringify v @ rest) = Some (v, rest)"
    proof -
      fix k v m rest
      assume kv: "(k, v) \<in> set kvs" and "size v < m" "rest_ok rest"
      moreover have "v \<in> Basic_BNFs.snds (k, v)" by (simp add: prod_set_defs)
      ultimately show "parse_value m (json_stringify v @ rest) = Some (v, rest)"
        using JObj.IH by blast
    qed
    have "parse_members n'
           (join_commas (map (\<lambda>(k, v). json_quote k @ CHR '':'' # json_stringify v) kvs)
              @ CHR ''}'' # rest) = Some (kvs, rest)"
      using IH False fuel by (rule parse_members_join)
    moreover obtain k v kvs' where "kvs = (k, v) # kvs'" using False by (cases kvs) auto
    ultimately show ?thesis by (simp add: n parse_value_obj json_quote_def is_json_ws_def join_commas_Cons)
  qed
qed

lemma join_commas_length:
  "sum_list (map length xs) + length xs \<le> Suc (length (join_commas xs))"
  by (induction xs rule: join_commas.induct) auto

lemma json_quote_length: "2 \<le> length (json_quote s)"
  by (simp add: json_quote_def)

lemma size_json_le_length: "size v \<le> length (json_stringify v)"
proof (induction v)
  case (JArr vs)
  have "sum_list (map size vs) \<le> sum_list (map (\<lambda>v. length (json_stringify v)) vs)"
    using JArr.IH by (intro sum_list_mono) auto
  then have "size_list size vs \<le> Suc (length (join_commas (map json_stringify vs)))"
    using join_commas_length [of "map json_stringify vs"]
    by (simp add: size_list_conv_sum_list comp_def)
  then show ?case by simp
next
  case (JObj kvs)
  let ?m = "\<lambda>(k, v). json_quote k @ CHR '':'' # json_stringify v"
  have "sum_list (map (size_prod (\<lambda>_. 0) size) kvs) \<le> sum_list (map (\<lambda>kv. length (?m kv)) kvs)"
  proof (intro sum_list_mono)
    fix kv assume "kv \<in> set kvs"
    moreover obtain k v where kv: "kv = (k, v)" by (cases kv)
    ultimately have "size v \<le> length (json_stringify v)"
      using JObj.IH by (auto simp: prod_set_defs)
    then show "size_prod (\<lambda>_. 0) size kv \<le> length (?m kv)"
      using json_quote_length [of k] by (simp add: kv)
  qed
  then have "size_list (size_prod (\<lambda>_. 0) size) kvs \<le> Suc (length (join_commas (map ?m kvs)))"
    using join_commas_length [of "map ?m kvs"]
    by (simp add: size_list_conv_sum_list comp_def)
  then show ?case by simp
qed (auto simp: int_to_string_def json_quote_def)

theorem json_parse_stringify: "JSON_parse (json_stringify v) = Some v"
proof -
  have "size v < Suc (length (json_stringify v))"
    using size_json_le_length [of v] by simp
  then have "parse_value (Suc (length (json_stringify v))) (json_stringify v @ []) = Some (v, [])"
    by (rule parse_value_stringify) simp
  then show ?thesis by (simp add: JSON_parse_def)
qed

text \<open>
  Texts \<open>JSON.parse\<close> rejects at their first significant character: no JSON value
  starts with any other character than a digit, \<open>-\<close>, \<open>n\<close>, \<open>t\<close>, \<open>f\<close>, \<open>[\<close>,
  \<open>{\<close> or a quote, and white space alone is no value.
\<close>

lemma parse_value_bad_start:
  assumes "skip_ws s = c # r" and "\<not> is_dec_digit c" and "c \<notin> set ''-ntf[{''" and "c \<noteq> dquote"
  shows "parse_value n s = None"
proof (cases n)
  case 0
  then show ?thesis by simp
next
  case (Suc m)
  have "parse_nat_digits (c # r) = None"
    using assms(2) by (simp add: parse_nat_digits_def)
  with assms Suc show ?thesis
    by (simp add: parse_value.simps(2) parse_number_def)
qed

lemma JSON_parse_bad_start:
  assumes "\<forall>c r. skip_ws s = c # r \<longrightarrow> \<not> is_dec_digit c \<and> c \<notin> set ''-ntf[{'' \<and> c \<noteq> dquote"
  shows "JSON_parse s = None"
proof (cases "skip_ws s")
  case Nil
  then show ?thesis by (simp add: JSON_parse_def parse_value.simps(2))
next
  case (Cons c r)
  with assms have "parse_value (Suc (length s)) s = None" by (intro parse_value_bad_start) auto
  then show ?thesis by (simp add: JSON_parse_def)
qed

end
