(* ===== verification/ArraySort.thy ===== *)
theory ArraySort
  imports Prelude
begin

text \<open>
  \<open>Array.prototype.sort\<close> with a comparator. ECMAScript (since 2019) requires the sort
  to be stable: two elements the comparator calls equal keep their order. Engines use
  merge-based sorts (V8: TimSort); the model is a top-down merge sort that takes the
  left element on a tie. The comparator returns a number, here an \<open>int\<close>: negative puts
  its first argument first. For a comparator that is the difference of a key, the result
  is the library's stable \<open>sort_key\<close> (\<open>js_sort_key\<close>), so any stable sort an engine
  uses gives the same array.
\<close>

fun js_merge :: "('a \<Rightarrow> 'a \<Rightarrow> int) \<Rightarrow> 'a list \<Rightarrow> 'a list \<Rightarrow> 'a list" where
  "js_merge cmp [] ys = ys"
| "js_merge cmp xs [] = xs"
| "js_merge cmp (x # xs) (y # ys) =
     (if cmp x y \<le> 0 then x # js_merge cmp xs (y # ys) else y # js_merge cmp (x # xs) ys)"

fun js_sort :: "('a \<Rightarrow> 'a \<Rightarrow> int) \<Rightarrow> 'a list \<Rightarrow> 'a list" where
  "js_sort cmp xs =
     (let n = length xs in
      if n \<le> 1 then xs
      else js_merge cmp (js_sort cmp (take (n div 2) xs)) (js_sort cmp (drop (n div 2) xs)))"

declare js_sort.simps [simp del]

lemma mset_js_merge [simp]: "mset (js_merge cmp xs ys) = mset xs + mset ys"
  by (induction cmp xs ys rule: js_merge.induct) auto

lemma set_js_merge [simp]: "set (js_merge cmp xs ys) = set xs \<union> set ys"
  by (metis mset_js_merge set_mset_mset set_mset_union)

lemma sorted_js_merge:
  "\<forall>a b. cmp a b = f a - f b \<Longrightarrow> sorted (map f xs) \<Longrightarrow> sorted (map f ys) \<Longrightarrow>
   sorted (map f (js_merge cmp xs ys))"
  by (induction cmp xs ys rule: js_merge.induct) auto

lemma filter_js_merge:
  "\<forall>a b. cmp a b = f a - f b \<Longrightarrow> sorted (map f xs) \<Longrightarrow> sorted (map f ys) \<Longrightarrow>
    filter (\<lambda>z. f z = c) (js_merge cmp xs ys) = filter (\<lambda>z. f z = c) xs @ filter (\<lambda>z. f z = c) ys"
proof (induction cmp xs ys rule: js_merge.induct)
  case (3 cmp x xs y ys)
  show ?case
  proof (cases "f x \<le> f y")
    case True
    with 3 show ?thesis by simp
  next
    case False
    have "filter (\<lambda>z. f z = c) (x # xs) = []" if "f y = c"
      using False "3.prems"(2) that by (auto simp: filter_empty_conv)
    with False 3 show ?thesis by auto
  qed
qed simp_all

lemma mset_js_sort [simp]: "mset (js_sort cmp xs) = mset xs"
proof (induction cmp xs rule: js_sort.induct)
  case (1 cmp xs)
  then show ?case
    by (cases "length xs \<le> 1")
       (simp_all add: js_sort.simps [of cmp xs] Let_def flip: mset_append)
qed

lemma sorted_js_sort: "sorted (map f (js_sort (\<lambda>a b. f a - f b) xs))"
proof (induction "\<lambda>a b. f a - f b :: int" xs rule: js_sort.induct)
  case (1 xs)
  then show ?case
    by (cases "length xs \<le> 1")
       (auto simp: js_sort.simps [of _ xs] Let_def sorted01 intro: sorted_js_merge)
qed

lemma filter_js_sort:
  "filter (\<lambda>z. f z = c) (js_sort (\<lambda>a b. f a - f b) xs) = filter (\<lambda>z. f z = c) xs"
proof (induction "\<lambda>a b. f a - f b :: int" xs rule: js_sort.induct)
  case (1 xs)
  let ?cmp = "\<lambda>a b. f a - f b :: int"
  show ?case
  proof (cases "length xs \<le> 1")
    case True
    then show ?thesis by (simp add: js_sort.simps [of _ xs])
  next
    case False
    let ?l = "take (length xs div 2) xs" and ?r = "drop (length xs div 2) xs"
    have "filter (\<lambda>z. f z = c) (js_sort ?cmp xs) =
        filter (\<lambda>z. f z = c) (js_sort ?cmp ?l) @ filter (\<lambda>z. f z = c) (js_sort ?cmp ?r)"
      using False sorted_js_sort [of f ?l] sorted_js_sort [of f ?r]
      by (simp add: js_sort.simps [of _ xs] Let_def filter_js_merge)
    also have "\<dots> = filter (\<lambda>z. f z = c) ?l @ filter (\<lambda>z. f z = c) ?r"
      using False "1.hyps" by (simp add: Let_def)
    also have "\<dots> = filter (\<lambda>z. f z = c) xs"
      by (simp flip: filter_append)
    finally show ?thesis .
  qed
qed

theorem js_sort_key:
  "js_sort (\<lambda>a b. f a - f b) xs = sort_key f xs"
proof (rule properties_for_sort_key [symmetric])
  show "mset (js_sort (\<lambda>a b. f a - f b) xs) = mset xs" by simp
  show "sorted (map f (js_sort (\<lambda>a b. f a - f b) xs))" by (rule sorted_js_sort)
  fix k
  show "filter (\<lambda>x. f k = f x) (js_sort (\<lambda>a b. f a - f b) xs) = filter (\<lambda>x. f k = f x) xs"
    using filter_js_sort [of f "f k" xs] by (simp add: eq_commute)
qed

end
