(* ===== verification/TaskService.thy ===== *)
theory TaskService
  imports Json ArraySort
begin

text \<open>
  The task store of \<open>src/list/src/services/taskService.ts\<close>. The class \<open>TaskService\<close>
  keeps no state of its own: its state is the browser's local storage, a map from keys to
  strings, in which the key \<open>''tasks''\<close> holds the whole task list as one JSON text.
  Every operation reads that text (\<open>getTasksFromStorage\<close>), works on the list, and
  writes the whole list back (\<open>saveTasksToStorage\<close>). The values the code takes from its
  environment, \<open>Date.now()\<close> and \<open>crypto.randomUUID()\<close>, are parameters of the
  operations, one parameter per call in the order the code makes the calls. An exception
  (the \<open>throw\<close> of \<open>updateTask\<close>, a \<open>SyntaxError\<close> of \<open>JSON.parse\<close>) is an
  \<open>Inl\<close> result, and the storage is then unchanged, as no write happened.
\<close>

subsection \<open>Data\<close>

text \<open>
  \<open>interface Task\<close>. The fields the caller of \<open>addTask\<close> supplies
  (\<open>Omit<Task, 'id' | 'createdAt' | 'updatedAt'>\<close>) are a record of their own, which
  \<open>task\<close> extends with the three fields the service assigns. \<open>id\<close> and \<open>done\<close> are
  taken in Isabelle, hence \<open>task_id\<close> and \<open>task_done\<close>.
\<close>

record task_input =
  caption :: string
  body :: string
  task_done :: bool

record task = task_input +
  task_id :: uuid
  createdAt :: timestamp
  updatedAt :: timestamp

text \<open>
  \<open>Partial<Task>\<close>: each field is present (\<open>Some\<close>) or absent (\<open>None\<close>). A field that is
  present with the value \<open>undefined\<close> is not modelled (see the findings).
\<close>

record task_patch =
  patch_id :: "uuid option"
  patch_caption :: "string option"
  patch_body :: "string option"
  patch_done :: "bool option"
  patch_createdAt :: "timestamp option"
  patch_updatedAt :: "timestamp option"

definition empty_patch :: task_patch where
  "empty_patch = \<lparr>patch_id = None, patch_caption = None, patch_body = None, patch_done = None,
     patch_createdAt = None, patch_updatedAt = None\<rparr>"

datatype task_error =
    TaskNotFound
  | StorageSyntaxError
  | StorageNotTaskList

type_synonym local_storage = "string \<Rightarrow> string option"

definition STORAGE_KEY :: string where
  "STORAGE_KEY = ''tasks''"

subsection \<open>The stored representation\<close>

text \<open>
  A task object as \<open>JSON.stringify\<close> writes it. Its keys come in the order the object was
  built: \<open>{...task, id, createdAt, updatedAt}\<close> in \<open>addTask\<close>, after the caller's
  \<open>{caption, body, done}\<close> (\<open>TaskList.tsx\<close>, \<open>handleAddTask\<close>); the spread in
  \<open>updateTask\<close> keeps that order, since a patch has no other keys.
\<close>

definition task_to_json :: "task \<Rightarrow> json" where
  "task_to_json t = JObj
     [(''caption'', JStr (caption t)), (''body'', JStr (body t)), (''done'', JBool (task_done t)),
      (''id'', JStr (task_id t)), (''createdAt'', JNum (createdAt t)),
      (''updatedAt'', JNum (updatedAt t))]"

definition tasks_to_json :: "task list \<Rightarrow> json" where
  "tasks_to_json ts = JArr (map task_to_json ts)"

text \<open>
  Reading a parsed object back: \<open>JSON.parse\<close> keeps the last of duplicate keys, hence
  the lookup in the reversed member list. A value of another shape is \<open>None\<close>: the
  JavaScript code would go on with an object that is not a \<open>Task\<close>, which the model
  does not follow (\<open>StorageNotTaskList\<close>).
\<close>

definition json_field :: "(string \<times> json) list \<Rightarrow> string \<Rightarrow> json option" where
  "json_field kvs k = map_of (rev kvs) k"

definition json_string :: "json option \<Rightarrow> string option" where
  "json_string v = (case v of Some (JStr s) \<Rightarrow> Some s | _ \<Rightarrow> None)"

definition json_int :: "json option \<Rightarrow> int option" where
  "json_int v = (case v of Some (JNum i) \<Rightarrow> Some i | _ \<Rightarrow> None)"

definition json_bool :: "json option \<Rightarrow> bool option" where
  "json_bool v = (case v of Some (JBool b) \<Rightarrow> Some b | _ \<Rightarrow> None)"

fun json_to_task :: "json \<Rightarrow> task option" where
  "json_to_task (JObj kvs) =
     (case (json_string (json_field kvs ''caption''), json_string (json_field kvs ''body''),
            json_bool (json_field kvs ''done''), json_string (json_field kvs ''id''),
            json_int (json_field kvs ''createdAt''), json_int (json_field kvs ''updatedAt'')) of
        (Some c, Some b, Some d, Some i, Some ca, Some ua) \<Rightarrow>
          Some \<lparr>caption = c, body = b, task_done = d, task_id = i, createdAt = ca, updatedAt = ua\<rparr>
      | _ \<Rightarrow> None)"
| "json_to_task _ = None"

fun json_to_tasks :: "json \<Rightarrow> task list option" where
  "json_to_tasks (JArr vs) = those (map json_to_task vs)"
| "json_to_tasks _ = None"

subsection \<open>Operations\<close>

text \<open>
  \<open>getTasksFromStorage\<close>: \<open>localStorage.getItem\<close> gives \<open>null\<close> for a missing key;
  \<open>null\<close> and the empty string are falsy, and give the empty list.
\<close>

definition getTasksFromStorage :: "local_storage \<Rightarrow> task_error + task list" where
  "getTasksFromStorage ls =
     (case ls STORAGE_KEY of
        None \<Rightarrow> Inr []
      | Some txt \<Rightarrow>
          if txt = [] then Inr []
          else (case JSON_parse txt of
                  None \<Rightarrow> Inl StorageSyntaxError
                | Some v \<Rightarrow> (case json_to_tasks v of
                               None \<Rightarrow> Inl StorageNotTaskList
                             | Some ts \<Rightarrow> Inr ts)))"

definition saveTasksToStorage :: "task list \<Rightarrow> local_storage \<Rightarrow> local_storage" where
  "saveTasksToStorage ts ls = ls(STORAGE_KEY \<mapsto> json_stringify (tasks_to_json ts))"

definition getTasks :: "local_storage \<Rightarrow> task_error + task list" where
  "getTasks ls = getTasksFromStorage ls"

text \<open>
  \<open>addTask\<close>: the spread \<open>{...task, id, createdAt, updatedAt}\<close> is the record
  extension; \<open>createdAt\<close> and \<open>updatedAt\<close> come from two calls of \<open>Date.now()\<close>.
\<close>

definition addTask :: "local_storage \<Rightarrow> task_input \<Rightarrow> uuid \<Rightarrow> timestamp \<Rightarrow> timestamp \<Rightarrow>
    task_error + (task \<times> local_storage)" where
  "addTask ls inp uid now1 now2 =
     (case getTasksFromStorage ls of
        Inl e \<Rightarrow> Inl e
      | Inr tasks \<Rightarrow>
          (let newTask = task_input.extend inp (task.fields uid now1 now2)
           in Inr (newTask, saveTasksToStorage (tasks @ [newTask]) ls)))"

text \<open>\<open>{...tasks[taskIndex], ...updates, updatedAt: Date.now()}\<close>.\<close>

definition merge_patch :: "task \<Rightarrow> task_patch \<Rightarrow> timestamp \<Rightarrow> task" where
  "merge_patch t p now =
     t\<lparr>task_id := case_option (task_id t) id (patch_id p),
       caption := case_option (caption t) id (patch_caption p),
       body := case_option (body t) id (patch_body p),
       task_done := case_option (task_done t) id (patch_done p),
       createdAt := case_option (createdAt t) id (patch_createdAt p),
       updatedAt := now\<rparr>"

definition updateTask :: "local_storage \<Rightarrow> uuid \<Rightarrow> task_patch \<Rightarrow> timestamp \<Rightarrow>
    task_error + (task \<times> local_storage)" where
  "updateTask ls tid updates now =
     (case getTasksFromStorage ls of
        Inl e \<Rightarrow> Inl e
      | Inr tasks \<Rightarrow>
          (let taskIndex = js_findIndex (\<lambda>t. task_id t = tid) tasks
           in if taskIndex = -1 then Inl TaskNotFound
              else
                (let updatedTask = merge_patch (tasks ! nat taskIndex) updates now
                 in Inr (updatedTask, saveTasksToStorage (tasks[nat taskIndex := updatedTask]) ls))))"

definition deleteTask :: "local_storage \<Rightarrow> uuid \<Rightarrow> task_error + local_storage" where
  "deleteTask ls tid =
     (case getTasksFromStorage ls of
        Inl e \<Rightarrow> Inl e
      | Inr tasks \<Rightarrow> Inr (saveTasksToStorage (filter (\<lambda>t. task_id t \<noteq> tid) tasks) ls))"

text \<open>
  \<open>getTasksByDateRange\<close>: the bounds are \<open>Date\<close> objects read by \<open>getTime()\<close>; an
  invalid \<open>Date\<close> (whose time is \<open>NaN\<close>) is not modelled.
\<close>

definition getTasksByDateRange :: "local_storage \<Rightarrow> timestamp \<Rightarrow> timestamp \<Rightarrow> task_error + task list" where
  "getTasksByDateRange ls startDate endDate =
     (case getTasksFromStorage ls of
        Inl e \<Rightarrow> Inl e
      | Inr tasks \<Rightarrow> Inr (filter (\<lambda>t. startDate \<le> createdAt t \<and> createdAt t \<le> endDate) tasks))"

text \<open>
  \<open>getTasksSortedByDate\<close>: the comparator \<open>(a, b) => ascending ? dateA - dateB :
  dateB - dateA\<close> on the \<open>createdAt\<close> numbers, given to the engine's stable sort of a
  copy (\<open>[...tasks].sort\<close>); the stored list is not written. The model's \<open>int\<close>
  subtraction has the sign of the JavaScript subtraction of two finite numbers, and the
  sign is all the sort reads.
\<close>

definition date_cmp :: "bool \<Rightarrow> task \<Rightarrow> task \<Rightarrow> int" where
  "date_cmp ascending a b =
     (let dateA = createdAt a; dateB = createdAt b in if ascending then dateA - dateB else dateB - dateA)"

definition getTasksSortedByDate :: "local_storage \<Rightarrow> bool \<Rightarrow> task_error + task list" where
  "getTasksSortedByDate ls ascending =
     (case getTasksFromStorage ls of
        Inl e \<Rightarrow> Inl e
      | Inr tasks \<Rightarrow> Inr (js_sort (date_cmp ascending) tasks))"

subsection \<open>The contract of the store\<close>

text \<open>
  What the store promises, on the task list itself: \<open>addTask\<close> appends,
  \<open>updateTask\<close> merges the patch into the first task with the identifier (and fails
  when there is none), \<open>deleteTask\<close> removes every task with the identifier. The
  refinement lemmas below show that the storage-backed operations implement these
  list operations, through \<open>getTasksFromStorage\<close> as the abstraction function.
\<close>

fun update_first :: "('a \<Rightarrow> bool) \<Rightarrow> ('a \<Rightarrow> 'a) \<Rightarrow> 'a list \<Rightarrow> 'a list option" where
  "update_first P f [] = None"
| "update_first P f (x # xs) = (if P x then Some (f x # xs) else map_option ((#) x) (update_first P f xs))"

definition spec_update :: "task list \<Rightarrow> uuid \<Rightarrow> task_patch \<Rightarrow> timestamp \<Rightarrow> task list option" where
  "spec_update ts tid p now = update_first (\<lambda>t. task_id t = tid) (\<lambda>t. merge_patch t p now) ts"

definition spec_delete :: "task list \<Rightarrow> uuid \<Rightarrow> task list" where
  "spec_delete ts tid = [t \<leftarrow> ts. task_id t \<noteq> tid]"

text \<open>
  The invariant of the stored list (section 3 of the spec): identifiers are unique and no
  task was updated before it was created.
\<close>

definition wf_tasks :: "task list \<Rightarrow> bool" where
  "wf_tasks ts \<longleftrightarrow> distinct (map task_id ts) \<and> (\<forall>t \<in> set ts. createdAt t \<le> updatedAt t)"

text \<open>
  A clock reading \<open>now\<close> is not behind a list when every timestamp in it is at most
  \<open>now\<close>: what a clock that never goes backwards guarantees of \<open>Date.now()\<close>.
\<close>

definition clock_after :: "task list \<Rightarrow> timestamp \<Rightarrow> bool" where
  "clock_after ts now \<longleftrightarrow> (\<forall>t \<in> set ts. createdAt t \<le> now \<and> updatedAt t \<le> now)"

text \<open>
  A patch keeps the invariant when it does not give the task the identifier of another
  task and does not move its creation time past \<open>now\<close>.
\<close>

definition patch_ok :: "task list \<Rightarrow> uuid \<Rightarrow> task_patch \<Rightarrow> timestamp \<Rightarrow> bool" where
  "patch_ok ts tid p now \<longleftrightarrow>
     (case patch_id p of None \<Rightarrow> True | Some i \<Rightarrow> i = tid \<or> i \<notin> task_id ` set ts) \<and>
     (case patch_createdAt p of None \<Rightarrow> True | Some c \<Rightarrow> c \<le> now)"

text \<open>
  The store as a state machine. Its state is the storage with the last clock reading; a
  step is one call of \<open>addTask\<close>, \<open>updateTask\<close> or \<open>deleteTask\<close> that returns, with
  the environment's values constrained as a working browser provides them: the clock
  does not go backwards and \<open>crypto.randomUUID()\<close> does not repeat an identifier in
  use. Reading calls (\<open>getTasks\<close>, the filter and the sort) do not change the state.
\<close>

record store_state =
  storage :: local_storage
  clock :: timestamp

inductive store_step :: "store_state \<Rightarrow> store_state \<Rightarrow> bool" where
  add: "getTasksFromStorage (storage s) = Inr ts \<Longrightarrow> uid \<notin> task_id ` set ts \<Longrightarrow>
        clock s \<le> now1 \<Longrightarrow> now1 \<le> now2 \<Longrightarrow>
        addTask (storage s) inp uid now1 now2 = Inr (nt, ls') \<Longrightarrow>
        store_step s \<lparr>storage = ls', clock = now2\<rparr>"
| update: "getTasksFromStorage (storage s) = Inr ts \<Longrightarrow> patch_ok ts tid p now \<Longrightarrow> clock s \<le> now \<Longrightarrow>
        updateTask (storage s) tid p now = Inr (ut, ls') \<Longrightarrow>
        store_step s \<lparr>storage = ls', clock = now\<rparr>"
| delete: "deleteTask (storage s) tid = Inr ls' \<Longrightarrow> store_step s (s\<lparr>storage := ls'\<rparr>)"

inductive store_reachable :: "local_storage \<Rightarrow> store_state \<Rightarrow> bool" for ls0 where
  init: "store_reachable ls0 \<lparr>storage = ls0, clock = c\<rparr>"
| step: "store_reachable ls0 s \<Longrightarrow> store_step s s' \<Longrightarrow> store_reachable ls0 s'"

definition store_inv :: "store_state \<Rightarrow> bool" where
  "store_inv s \<longleftrightarrow>
     (case getTasksFromStorage (storage s) of
        Inl _ \<Rightarrow> False
      | Inr ts \<Rightarrow> wf_tasks ts \<and> clock_after ts (clock s))"

subsection \<open>Storage round trip\<close>

lemma json_to_task_to_json [simp]: "json_to_task (task_to_json t) = Some t"
  by (simp add: task_to_json_def json_field_def json_string_def json_int_def json_bool_def)

lemma json_to_tasks_to_json [simp]: "json_to_tasks (tasks_to_json ts) = Some ts"
  by (induction ts) (simp_all add: tasks_to_json_def)

lemma json_stringify_tasks_ne [simp]: "json_stringify (tasks_to_json ts) \<noteq> []"
  by (simp add: tasks_to_json_def)

lemma getTasksFromStorage_save [simp]:
  "getTasksFromStorage (saveTasksToStorage ts ls) = Inr ts"
  by (simp add: getTasksFromStorage_def saveTasksToStorage_def json_parse_stringify)

lemma saveTasksToStorage_other [simp]:
  "k \<noteq> STORAGE_KEY \<Longrightarrow> saveTasksToStorage ts ls k = ls k"
  by (simp add: saveTasksToStorage_def)

lemma saveTasksToStorage_twice [simp]:
  "saveTasksToStorage ts (saveTasksToStorage ts' ls) = saveTasksToStorage ts ls"
  by (simp add: saveTasksToStorage_def)

lemma getTasksFromStorage_empty [simp]: "getTasksFromStorage Map.empty = Inr []"
  by (simp add: getTasksFromStorage_def)

subsection \<open>The operations on a readable store\<close>

lemmas task_ops_defs = getTasks_def addTask_def updateTask_def deleteTask_def getTasksByDateRange_def

lemma task_ops_error:
  assumes "getTasksFromStorage ls = Inl e"
  shows "getTasks ls = Inl e" and "addTask ls inp uid now1 now2 = Inl e"
    and "updateTask ls tid p now = Inl e" and "deleteTask ls tid = Inl e"
    and "getTasksByDateRange ls a b = Inl e"
  using assms by (simp_all add: task_ops_defs)

lemma addTask_eq:
  "getTasksFromStorage ls = Inr ts \<Longrightarrow>
   addTask ls inp uid now1 now2 =
     Inr (task_input.extend inp (task.fields uid now1 now2),
          saveTasksToStorage (ts @ [task_input.extend inp (task.fields uid now1 now2)]) ls)"
  by (simp add: addTask_def Let_def)

lemma update_first_findIndex:
  "update_first P f xs =
     (let i = js_findIndex P xs in if i = -1 then None else Some (xs[nat i := f (xs ! nat i)]))"
proof (induction xs)
  case Nil
  then show ?case by simp
next
  case (Cons x xs)
  show ?case
  proof (cases "P x \<or> js_findIndex P xs = -1")
    case True
    with Cons.IH show ?thesis by (auto simp: Let_def)
  next
    case False
    then have "0 \<le> js_findIndex P xs" by (auto simp: js_findIndex_eq split: if_splits)
    then have "nat (js_findIndex P xs + 1) = Suc (nat (js_findIndex P xs))" by simp
    with False Cons.IH show ?thesis by (simp add: Let_def)
  qed
qed

lemma updateTask_eq:
  "getTasksFromStorage ls = Inr ts \<Longrightarrow>
   updateTask ls tid p now =
     (case spec_update ts tid p now of
        None \<Rightarrow> Inl TaskNotFound
      | Some ts' \<Rightarrow>
          Inr (merge_patch (ts ! nat (js_findIndex (\<lambda>t. task_id t = tid) ts)) p now,
               saveTasksToStorage ts' ls))"
  by (simp add: updateTask_def spec_update_def update_first_findIndex Let_def)

lemma deleteTask_eq:
  "getTasksFromStorage ls = Inr ts \<Longrightarrow> deleteTask ls tid = Inr (saveTasksToStorage (spec_delete ts tid) ls)"
  by (simp add: deleteTask_def spec_delete_def)

lemma getTasks_after_save [simp]: "getTasks (saveTasksToStorage ts ls) = Inr ts"
  by (simp add: getTasks_def)

lemma spec_update_None:
  "spec_update ts tid p now = None \<longleftrightarrow> tid \<notin> task_id ` set ts"
  by (induction ts) (auto simp: spec_update_def)

lemma update_first_Some:
  "update_first P f xs = Some ys \<Longrightarrow>
     \<exists>x \<in> set xs. P x \<and> f x \<in> set ys \<and> length ys = length xs \<and> set ys \<subseteq> insert (f x) (set xs)"
proof (induction xs arbitrary: ys)
  case Nil
  then show ?case by simp
next
  case (Cons x xs)
  show ?case
  proof (cases "P x")
    case True
    with Cons.prems show ?thesis by auto
  next
    case False
    with Cons.prems obtain zs where zs: "update_first P f xs = Some zs" and ys: "ys = x # zs"
      by auto
    from Cons.IH [OF zs] obtain y where "y \<in> set xs" "P y" "f y \<in> set zs" "length zs = length xs"
      "set zs \<subseteq> insert (f y) (set xs)"
      by blast
    with ys show ?thesis by auto
  qed
qed

subsection \<open>Properties of the task store\<close>

text \<open>
  C1. \<open>addTask\<close> on a readable store always returns: the new task carries the caller's
  caption, body and done flag, the fresh identifier and the two clock readings, and the
  store then reads back as the old list with the new task appended (refinement of the
  list contract; section 8, "round-trip" and "length increases by 1"). No other key of
  local storage is touched.
\<close>

theorem addTask_refines:
  assumes "getTasks ls = Inr ts"
  shows "\<exists>nt ls'. addTask ls inp uid now1 now2 = Inr (nt, ls') \<and> getTasks ls' = Inr (ts @ [nt]) \<and>
           task_input.truncate nt = inp \<and> task_id nt = uid \<and> createdAt nt = now1 \<and>
           updatedAt nt = now2 \<and> (\<forall>k. k \<noteq> STORAGE_KEY \<longrightarrow> ls' k = ls k)"
  using assms
  by (simp add: getTasks_def addTask_eq task_input.defs task.defs)

theorem addTask_refines_witness:
  "\<exists>nt ls'. addTask Map.empty \<lparr>caption = ''Buy milk'', body = ''2%'', task_done = False\<rparr> ''u1'' 5 5
       = Inr (nt, ls') \<and> getTasks ls' = Inr ([] @ [nt]) \<and>
     task_input.truncate nt = \<lparr>caption = ''Buy milk'', body = ''2%'', task_done = False\<rparr> \<and>
     task_id nt = ''u1'' \<and> createdAt nt = 5 \<and> updatedAt nt = 5 \<and>
     (\<forall>k. k \<noteq> STORAGE_KEY \<longrightarrow> ls' k = Map.empty k)"
  by (rule addTask_refines) (simp add: getTasks_def)

lemma find_task_Some:
  "find (\<lambda>t. task_id t = tid) ts = Some t \<Longrightarrow> t \<in> set ts \<and> task_id t = tid"
  by (auto simp: find_Some_iff)

lemma findIndex_first_task:
  assumes "find (\<lambda>t. task_id t = tid) ts = Some t"
  shows "js_findIndex (\<lambda>t. task_id t = tid) ts \<noteq> -1"
    and "nat (js_findIndex (\<lambda>t. task_id t = tid) ts) < length ts"
    and "ts ! nat (js_findIndex (\<lambda>t. task_id t = tid) ts) = t"
proof -
  from assms have x: "t \<in> set ts" "task_id t = tid"
    by (auto simp: find_Some_iff)
  then have ex: "\<exists>x \<in> set ts. task_id x = tid" by blast
  from takeWhile_not_find [OF ex] assms
  have nth: "ts ! length (takeWhile (\<lambda>x. task_id x \<noteq> tid) ts) = t" by simp
  from js_findIndex_found [of t ts "\<lambda>t. task_id t = tid"] x nth
  show "js_findIndex (\<lambda>t. task_id t = tid) ts \<noteq> -1"
    and "nat (js_findIndex (\<lambda>t. task_id t = tid) ts) < length ts"
    and "ts ! nat (js_findIndex (\<lambda>t. task_id t = tid) ts) = t"
    by auto
qed

lemma find_task_exists:
  "tid \<in> task_id ` set ts \<Longrightarrow> \<exists>t. find (\<lambda>t. task_id t = tid) ts = Some t"
  by (induction ts) auto

lemma updateTask_found:
  assumes "getTasksFromStorage ls = Inr ts" and "find (\<lambda>t. task_id t = tid) ts = Some t"
  shows "updateTask ls tid p now =
     Inr (merge_patch t p now,
          saveTasksToStorage (ts[nat (js_findIndex (\<lambda>t. task_id t = tid) ts) := merge_patch t p now]) ls)"
  using assms findIndex_first_task [OF assms(2)] by (simp add: updateTask_def Let_def)

lemma distinct_task_index:
  "distinct (map task_id ts) \<Longrightarrow> i < length ts \<Longrightarrow> j < length ts \<Longrightarrow>
   task_id (ts ! j) = task_id (ts ! i) \<longleftrightarrow> j = i"
  using nth_eq_iff_index_eq [of "map task_id ts" j i] by auto


lemma find_distinct_task:
  assumes "distinct (map task_id ts)" and "i < length ts"
  shows "find (\<lambda>t. task_id t = task_id (ts ! i)) ts = Some (ts ! i)"
  unfolding find_Some_iff
  using assms distinct_task_index [OF assms] by auto


lemma updateTask_distinct:
  assumes "getTasksFromStorage ls = Inr ts" and "distinct (map task_id ts)" and "i < length ts"
  shows "updateTask ls (task_id (ts ! i)) p now =
           Inr (merge_patch (ts ! i) p now, saveTasksToStorage (ts[i := merge_patch (ts ! i) p now]) ls)"
proof -
  note f = find_distinct_task [OF assms(2,3)]
  note j = findIndex_first_task [OF f]
  have "nat (js_findIndex (\<lambda>t. task_id t = task_id (ts ! i)) ts) = i"
    using j(2,3) distinct_task_index [OF assms(2,3) j(2)] by simp
  with updateTask_found [OF assms(1) f] show ?thesis by simp
qed


lemma merge_patch_done [simp]:
  "merge_patch t (empty_patch\<lparr>patch_done := Some b\<rparr>) now = t\<lparr>task_done := b, updatedAt := now\<rparr>"
  by (simp add: merge_patch_def empty_patch_def)

lemma wf_tasks_append:
  "wf_tasks ts \<Longrightarrow> task_id nt \<notin> task_id ` set ts \<Longrightarrow> createdAt nt \<le> updatedAt nt \<Longrightarrow>
   wf_tasks (ts @ [nt])"
  by (auto simp: wf_tasks_def)

lemma wf_tasks_filter: "wf_tasks ts \<Longrightarrow> wf_tasks (filter P ts)"
  by (auto simp: wf_tasks_def distinct_map_filter)

lemma clock_after_mono: "clock_after ts c \<Longrightarrow> c \<le> c' \<Longrightarrow> clock_after ts c'"
  by (auto simp: clock_after_def)

lemma clock_after_filter: "clock_after ts c \<Longrightarrow> clock_after (filter P ts) c"
  by (auto simp: clock_after_def)

lemma wf_tasks_update:
  assumes wf: "wf_tasks ts" and i: "i < length ts" and tid: "task_id (ts ! i) = tid"
    and ok: "patch_ok ts tid p now" and clk: "clock_after ts now"
  shows "wf_tasks (ts[i := merge_patch (ts ! i) p now])"
proof -
  let ?u = "merge_patch (ts ! i) p now"
  have "task_id ?u = tid \<or> task_id ?u \<notin> task_id ` set ts"
    using ok tid by (auto simp: merge_patch_def patch_ok_def split: option.splits)
  then have "task_id ?u \<notin> set (map task_id ts) - {map task_id ts ! i}"
    using i tid by auto
  then have "distinct ((map task_id ts)[i := task_id ?u])"
    using wf by (intro distinct_list_update) (simp_all add: wf_tasks_def)
  moreover have "createdAt ?u \<le> updatedAt ?u"
    using ok clk i nth_mem [OF i]
    by (auto simp: merge_patch_def patch_ok_def clock_after_def split: option.splits)
  ultimately show ?thesis
    using wf set_update_subset_insert [of ts i ?u] by (auto simp: wf_tasks_def map_update)
qed

lemma clock_after_update:
  assumes "clock_after ts now" and "patch_ok ts tid p now" and "i < length ts"
  shows "clock_after (ts[i := merge_patch (ts ! i) p now]) now"
  using assms set_update_subset_insert [of ts i "merge_patch (ts ! i) p now"] nth_mem [OF assms(3)]
  by (fastforce simp: clock_after_def merge_patch_def patch_ok_def split: option.splits)

lemma store_step_inv: "store_step s s' \<Longrightarrow> store_inv s \<Longrightarrow> store_inv s'"
proof (induction rule: store_step.induct)
  case (add s ts uid now1 now2 inp nt ls')
  then have nt: "nt = task_input.extend inp (task.fields uid now1 now2)"
    and ls': "ls' = saveTasksToStorage (ts @ [nt]) (storage s)"
    by (auto simp: addTask_eq)
  from add.prems add.hyps(1) have "wf_tasks ts" "clock_after ts (clock s)"
    by (simp_all add: store_inv_def)
  with add.hyps(2-4) nt show ?case
    by (auto simp: store_inv_def ls' task.defs task_input.defs clock_after_def
             intro!: wf_tasks_append)
next
  case (update s ts tid p now ut ls')
  from update.prems update.hyps(1) have wf: "wf_tasks ts" and clk0: "clock_after ts (clock s)"
    by (simp_all add: store_inv_def)
  have clk: "clock_after ts now" using clk0 update.hyps(3) by (rule clock_after_mono)
  from update.hyps(1,4) have "tid \<in> task_id ` set ts"
    using spec_update_None [of ts tid p now] by (auto simp: updateTask_eq split: option.splits)
  then obtain t where t: "find (\<lambda>t. task_id t = tid) ts = Some t"
    using find_task_exists by blast
  note i = findIndex_first_task [OF t]
  let ?i = "nat (js_findIndex (\<lambda>t. task_id t = tid) ts)"
  from update.hyps(1,4) t have ls': "ls' = saveTasksToStorage (ts[?i := merge_patch t p now]) (storage s)"
    by (auto simp: updateTask_found)
  have "task_id (ts ! ?i) = tid" using i find_task_Some [OF t] by simp
  then show ?case
    using wf_tasks_update [OF wf i(2) _ update.hyps(2) clk] clock_after_update [OF clk update.hyps(2) i(2)]
      i(3) by (simp add: store_inv_def ls')
next
  case (delete s tid ls')
  then obtain ts where ts: "getTasksFromStorage (storage s) = Inr ts" "wf_tasks ts" "clock_after ts (clock s)"
    by (auto simp: store_inv_def split: sum.splits)
  with delete.hyps have "ls' = saveTasksToStorage (filter (\<lambda>t. task_id t \<noteq> tid) ts) (storage s)"
    by (simp add: deleteTask_eq spec_delete_def)
  with ts show ?case
    by (simp add: store_inv_def wf_tasks_filter clock_after_filter)
qed

text \<open>
  C2. \<open>updateTask\<close> implements the contract \<open>spec_update\<close>: when no stored task has the
  identifier it fails with \<open>TaskNotFound\<close> (the \<open>throw\<close>, nothing written, nothing
  created); otherwise it returns the first task with that identifier merged with the patch
  and stamped with \<open>now\<close>, and stores exactly the list of the contract.
\<close>

theorem updateTask_refines:
  assumes "getTasks ls = Inr ts"
  shows "case spec_update ts tid p now of
           None \<Rightarrow> updateTask ls tid p now = Inl TaskNotFound
         | Some ts' \<Rightarrow> (\<exists>t \<in> set ts. task_id t = tid \<and>
              updateTask ls tid p now = Inr (merge_patch t p now, saveTasksToStorage ts' ls) \<and>
              merge_patch t p now \<in> set ts')"
proof (cases "tid \<in> task_id ` set ts")
  case False
  then have "spec_update ts tid p now = None" by (simp add: spec_update_None)
  with assms show ?thesis by (simp add: getTasks_def updateTask_eq)
next
  case True
  then obtain t where t: "find (\<lambda>t. task_id t = tid) ts = Some t"
    using find_task_exists by blast
  note i = findIndex_first_task [OF t]
  have "spec_update ts tid p now =
      Some (ts[nat (js_findIndex (\<lambda>t. task_id t = tid) ts) := merge_patch t p now])"
    using i by (simp add: spec_update_def update_first_findIndex Let_def)
  with assms t i find_task_Some [OF t] show ?thesis
    by (auto simp: getTasks_def updateTask_found set_update_memI)
qed

theorem updateTask_refines_witness:
  "getTasks (saveTasksToStorage [\<lparr>caption = ''Buy milk'', body = ''2%'', task_done = False, task_id = ''u1'', createdAt = 5, updatedAt = 5\<rparr>] Map.empty) = Inr [\<lparr>caption = ''Buy milk'', body = ''2%'', task_done = False, task_id = ''u1'', createdAt = 5, updatedAt = 5\<rparr>] \<and>
   (case spec_update [\<lparr>caption = ''Buy milk'', body = ''2%'', task_done = False, task_id = ''u1'', createdAt = 5, updatedAt = 5\<rparr>] ''u1'' (empty_patch\<lparr>patch_caption := Some ''Buy oat milk''\<rparr>) 7 of
      None \<Rightarrow> updateTask (saveTasksToStorage [\<lparr>caption = ''Buy milk'', body = ''2%'', task_done = False, task_id = ''u1'', createdAt = 5, updatedAt = 5\<rparr>] Map.empty) ''u1''
                (empty_patch\<lparr>patch_caption := Some ''Buy oat milk''\<rparr>) 7 = Inl TaskNotFound
    | Some ts' \<Rightarrow> (\<exists>t \<in> set [\<lparr>caption = ''Buy milk'', body = ''2%'', task_done = False, task_id = ''u1'', createdAt = 5, updatedAt = 5\<rparr>]. task_id t = ''u1'' \<and>
        updateTask (saveTasksToStorage [\<lparr>caption = ''Buy milk'', body = ''2%'', task_done = False, task_id = ''u1'', createdAt = 5, updatedAt = 5\<rparr>] Map.empty) ''u1''
          (empty_patch\<lparr>patch_caption := Some ''Buy oat milk''\<rparr>) 7 =
          Inr (merge_patch t (empty_patch\<lparr>patch_caption := Some ''Buy oat milk''\<rparr>) 7,
               saveTasksToStorage ts' (saveTasksToStorage [\<lparr>caption = ''Buy milk'', body = ''2%'', task_done = False, task_id = ''u1'', createdAt = 5, updatedAt = 5\<rparr>] Map.empty)) \<and>
        merge_patch t (empty_patch\<lparr>patch_caption := Some ''Buy oat milk''\<rparr>) 7 \<in> set ts'))"
proof -
  have h: "getTasks (saveTasksToStorage [\<lparr>caption = ''Buy milk'', body = ''2%'', task_done = False, task_id = ''u1'', createdAt = 5, updatedAt = 5\<rparr>] Map.empty) = Inr [\<lparr>caption = ''Buy milk'', body = ''2%'', task_done = False, task_id = ''u1'', createdAt = 5, updatedAt = 5\<rparr>]" by simp
  show ?thesis by (rule conjI [OF h updateTask_refines [OF h]])
qed

text \<open>
  C3. \<open>deleteTask\<close> on a readable store always returns, leaves exactly the tasks with
  another identifier, and a second call with the same identifier raises nothing and
  changes nothing (section 8, idempotence).
\<close>

theorem deleteTask_idempotent:
  assumes "getTasks ls = Inr ts"
  shows "\<exists>ls1. deleteTask ls tid = Inr ls1 \<and> deleteTask ls1 tid = Inr ls1 \<and>
           getTasks ls1 = Inr (spec_delete ts tid) \<and> tid \<notin> task_id ` set (spec_delete ts tid)"
  using assms by (auto simp: getTasks_def deleteTask_eq spec_delete_def)

theorem deleteTask_idempotent_witness:
  "getTasks Map.empty = Inr [] \<and>
   (\<exists>ls1. deleteTask Map.empty ''u1'' = Inr ls1 \<and> deleteTask ls1 ''u1'' = Inr ls1 \<and>
      getTasks ls1 = Inr (spec_delete [] ''u1'') \<and> ''u1'' \<notin> task_id ` set (spec_delete [] ''u1''))"
proof -
  have h: "getTasks Map.empty = Inr []" by (simp add: getTasks_def)
  show ?thesis by (rule conjI [OF h deleteTask_idempotent [OF h]])
qed

text \<open>
  C4. The invariant of the stored list (unique identifiers, \<open>createdAt \<le> updatedAt\<close>,
  no timestamp ahead of the clock) holds in every state the store reaches from empty
  storage by calls of \<open>addTask\<close>, \<open>updateTask\<close> and \<open>deleteTask\<close>, provided the clock
  does not go backwards, identifiers are fresh and patches keep identifiers apart
  (rule induction over \<open>store_reachable\<close>).
\<close>

theorem store_reachable_inv:
  assumes "store_reachable Map.empty s"
  shows "store_inv s"
  using assms
proof (induction rule: store_reachable.induct)
  case (init c)
  show ?case by (simp add: store_inv_def wf_tasks_def clock_after_def)
next
  case (step s s')
  from step.hyps(2) step.IH show ?case by (rule store_step_inv)
qed

theorem store_reachable_inv_witness:
  "store_reachable Map.empty
     \<lparr>storage = saveTasksToStorage [\<lparr>caption = ''Buy milk'', body = ''2%'', task_done = False, task_id = ''u1'', createdAt = 5, updatedAt = 5\<rparr>] Map.empty, clock = 5\<rparr> \<and>
   store_inv \<lparr>storage = saveTasksToStorage [\<lparr>caption = ''Buy milk'', body = ''2%'', task_done = False, task_id = ''u1'', createdAt = 5, updatedAt = 5\<rparr>] Map.empty, clock = 5\<rparr>"
proof -
  have step: "store_step \<lparr>storage = Map.empty, clock = 0\<rparr>
      \<lparr>storage = saveTasksToStorage [\<lparr>caption = ''Buy milk'', body = ''2%'', task_done = False, task_id = ''u1'', createdAt = 5, updatedAt = 5\<rparr>] Map.empty, clock = 5\<rparr>"
    by (rule store_step.add [of "\<lparr>storage = Map.empty, clock = 0\<rparr>" "[]" "''u1''" 5 5
          "\<lparr>caption = ''Buy milk'', body = ''2%'', task_done = False\<rparr>"])
       (simp_all add: addTask_eq task.defs task_input.defs)
  have r: "store_reachable Map.empty \<lparr>storage = saveTasksToStorage [\<lparr>caption = ''Buy milk'', body = ''2%'', task_done = False, task_id = ''u1'', createdAt = 5, updatedAt = 5\<rparr>] Map.empty, clock = 5\<rparr>"
    by (rule store_reachable.step [OF store_reachable.init step])
  show ?thesis by (rule conjI [OF r store_reachable_inv [OF r]])
qed

text \<open>
  C5. Marking a task done or undone (the patch \<open>{done}\<close> alone) changes only the
  done flag and the update time of the first task with the identifier: caption, body,
  identifier and creation time are kept, \<open>updatedAt\<close> becomes \<open>now\<close>, and the task
  keeps its position in the stored list (section 8).
\<close>

theorem updateTask_done_only:
  assumes "getTasks ls = Inr ts" and "find (\<lambda>t. task_id t = tid) ts = Some t"
  shows "\<exists>ls'. updateTask ls tid (empty_patch\<lparr>patch_done := Some b\<rparr>) now =
           Inr (t\<lparr>task_done := b, updatedAt := now\<rparr>, ls') \<and>
           getTasks ls' = Inr (ts[nat (js_findIndex (\<lambda>t. task_id t = tid) ts) :=
                                   t\<lparr>task_done := b, updatedAt := now\<rparr>])"
  using assms by (simp add: getTasks_def updateTask_found)

theorem updateTask_done_only_witness:
  "getTasks (saveTasksToStorage [\<lparr>caption = ''Buy milk'', body = ''2%'', task_done = False, task_id = ''u1'', createdAt = 5, updatedAt = 5\<rparr>] Map.empty) = Inr [\<lparr>caption = ''Buy milk'', body = ''2%'', task_done = False, task_id = ''u1'', createdAt = 5, updatedAt = 5\<rparr>] \<and>
   find (\<lambda>t. task_id t = ''u1'') [\<lparr>caption = ''Buy milk'', body = ''2%'', task_done = False, task_id = ''u1'', createdAt = 5, updatedAt = 5\<rparr>] = Some \<lparr>caption = ''Buy milk'', body = ''2%'', task_done = False, task_id = ''u1'', createdAt = 5, updatedAt = 5\<rparr> \<and>
   (\<exists>ls'. updateTask (saveTasksToStorage [\<lparr>caption = ''Buy milk'', body = ''2%'', task_done = False, task_id = ''u1'', createdAt = 5, updatedAt = 5\<rparr>] Map.empty) ''u1''
        (empty_patch\<lparr>patch_done := Some True\<rparr>) 9 =
      Inr (\<lparr>caption = ''Buy milk'', body = ''2%'', task_done = False, task_id = ''u1'', createdAt = 5, updatedAt = 5\<rparr>\<lparr>task_done := True, updatedAt := 9\<rparr>, ls') \<and>
      getTasks ls' = Inr ([\<lparr>caption = ''Buy milk'', body = ''2%'', task_done = False, task_id = ''u1'', createdAt = 5, updatedAt = 5\<rparr>][nat (js_findIndex (\<lambda>t. task_id t = ''u1'') [\<lparr>caption = ''Buy milk'', body = ''2%'', task_done = False, task_id = ''u1'', createdAt = 5, updatedAt = 5\<rparr>]) :=
                             \<lparr>caption = ''Buy milk'', body = ''2%'', task_done = False, task_id = ''u1'', createdAt = 5, updatedAt = 5\<rparr>\<lparr>task_done := True, updatedAt := 9\<rparr>]))"
proof -
  have h1: "getTasks (saveTasksToStorage [\<lparr>caption = ''Buy milk'', body = ''2%'', task_done = False, task_id = ''u1'', createdAt = 5, updatedAt = 5\<rparr>] Map.empty) = Inr [\<lparr>caption = ''Buy milk'', body = ''2%'', task_done = False, task_id = ''u1'', createdAt = 5, updatedAt = 5\<rparr>]" by simp
  have h2: "find (\<lambda>t. task_id t = ''u1'') [\<lparr>caption = ''Buy milk'', body = ''2%'', task_done = False, task_id = ''u1'', createdAt = 5, updatedAt = 5\<rparr>] = Some \<lparr>caption = ''Buy milk'', body = ''2%'', task_done = False, task_id = ''u1'', createdAt = 5, updatedAt = 5\<rparr>" by simp
  show ?thesis using updateTask_done_only [OF h1 h2] h1 h2 by blast
qed

text \<open>
  C6. A non-empty stored text that \<open>JSON.parse\<close> rejects at its first significant
  character (white space only, or a character no JSON value starts with, such as the
  \<open><\<close> of an HTML page or a truncated write) makes every operation fail with the
  \<open>SyntaxError\<close> of \<open>JSON.parse\<close>, before anything is written. The hypothesis is
  stated on the text, not on the model's parser, so it describes exactly the texts the
  JavaScript parser rejects this way.
\<close>

theorem corrupt_storage_fails:
  assumes "ls STORAGE_KEY = Some txt" and "txt \<noteq> []"
    and "\<forall>c r. skip_ws txt = c # r \<longrightarrow> \<not> is_dec_digit c \<and> c \<notin> set ''-ntf[{'' \<and> c \<noteq> dquote"
  shows "getTasks ls = Inl StorageSyntaxError \<and>
         addTask ls inp uid now1 now2 = Inl StorageSyntaxError \<and>
         updateTask ls tid p now = Inl StorageSyntaxError \<and>
         deleteTask ls tid = Inl StorageSyntaxError"
proof -
  from assms JSON_parse_bad_start [OF assms(3)] have "getTasksFromStorage ls = Inl StorageSyntaxError"
    by (simp add: getTasksFromStorage_def)
  then show ?thesis by (simp add: task_ops_error)
qed

theorem corrupt_storage_fails_witness:
  "(Map.empty(STORAGE_KEY \<mapsto> '' <html>'')) STORAGE_KEY = Some '' <html>'' \<and> '' <html>'' \<noteq> [] \<and>
   skip_ws '' <html>'' = CHR ''<'' # ''html>'' \<and> \<not> is_dec_digit (CHR ''<'') \<and> CHR ''<'' \<notin> set ''-ntf[{'' \<and>
   CHR ''<'' \<noteq> dquote \<and>
   getTasks (Map.empty(STORAGE_KEY \<mapsto> '' <html>'')) = Inl StorageSyntaxError \<and>
   addTask (Map.empty(STORAGE_KEY \<mapsto> '' <html>'')) \<lparr>caption = ''a'', body = ''b'', task_done = False\<rparr> ''u1'' 5 5
     = Inl StorageSyntaxError \<and>
   updateTask (Map.empty(STORAGE_KEY \<mapsto> '' <html>'')) ''u1'' empty_patch 5 = Inl StorageSyntaxError \<and>
   deleteTask (Map.empty(STORAGE_KEY \<mapsto> '' <html>'')) ''u1'' = Inl StorageSyntaxError"
proof -
  have h1: "(Map.empty(STORAGE_KEY \<mapsto> '' <html>'')) STORAGE_KEY = Some '' <html>''" by simp
  have h2: "'' <html>'' \<noteq> []" by simp
  have h3: "\<forall>c r. skip_ws '' <html>'' = c # r \<longrightarrow> \<not> is_dec_digit c \<and> c \<notin> set ''-ntf[{'' \<and> c \<noteq> dquote"
    by (simp add: skip_ws_def is_json_ws_def is_dec_digit_def)
  show ?thesis
    using corrupt_storage_fails [of "Map.empty(STORAGE_KEY \<mapsto> '' <html>'')" "'' <html>''", OF h1 h2 h3] h1 h2
    by (simp add: skip_ws_def is_json_ws_def is_dec_digit_def)
qed

text \<open>
  C7. \<open>updateTask\<close> lets a patch overwrite the identifier: in any store with unique
  identifiers, a patch \<open>{id}\<close> on one task naming another stored task succeeds and
  leaves two tasks with one identifier, against the spec's "id is immutable and unique".
\<close>

theorem updateTask_duplicate_id:
  assumes "getTasksFromStorage ls = Inr ts" and "distinct (map task_id ts)"
    and "i < length ts" and "j < length ts" and "i \<noteq> j"
  shows "\<exists>t ls'. updateTask ls (task_id (ts ! i)) (empty_patch\<lparr>patch_id := Some (task_id (ts ! j))\<rparr>) now =
           Inr (t, ls') \<and> task_id t = task_id (ts ! j) \<and> getTasksFromStorage ls' = Inr (ts[i := t]) \<and>
           \<not> distinct (map task_id (ts[i := t]))"
proof -
  let ?p = "empty_patch\<lparr>patch_id := Some (task_id (ts ! j))\<rparr>"
  let ?t = "merge_patch (ts ! i) ?p now"
  have id: "task_id ?t = task_id (ts ! j)" by (simp add: merge_patch_def empty_patch_def)
  have nd: "\<not> distinct (map task_id (ts[i := ?t]))"
  proof
    assume d: "distinct (map task_id (ts[i := ?t]))"
    have e: "map task_id (ts[i := ?t]) ! i = map task_id (ts[i := ?t]) ! j"
      using assms(3,4,5) id by simp
    have "i < length (map task_id (ts[i := ?t]))" "j < length (map task_id (ts[i := ?t]))"
      using assms(3,4) by simp_all
    from nth_eq_iff_index_eq [OF d this] e assms(5) show False by simp
  qed
  show ?thesis
    using updateTask_distinct [OF assms(1,2,3), of ?p now] id nd by simp
qed

theorem updateTask_duplicate_id_witness:
  "let ts = [\<lparr>caption = ''Buy milk'', body = ''2%'', task_done = False, task_id = ''u1'', createdAt = 5, updatedAt = 5\<rparr>,
             \<lparr>caption = ''Call Bob'', body = [], task_done = False, task_id = ''u2'', createdAt = 6, updatedAt = 6\<rparr>]
   in getTasksFromStorage (saveTasksToStorage ts Map.empty) = Inr ts \<and> distinct (map task_id ts) \<and>
      (1::nat) < length ts \<and> (0::nat) < length ts \<and> (1::nat) \<noteq> 0 \<and>
      (\<exists>t ls'. updateTask (saveTasksToStorage ts Map.empty) ''u2'' (empty_patch\<lparr>patch_id := Some ''u1''\<rparr>) 9 =
           Inr (t, ls') \<and> task_id t = ''u1'' \<and> getTasksFromStorage ls' = Inr (ts[1 := t]) \<and>
           \<not> distinct (map task_id (ts[1 := t])))"
proof -
  let ?ts = "[\<lparr>caption = ''Buy milk'', body = ''2%'', task_done = False, task_id = ''u1'', createdAt = 5, updatedAt = 5\<rparr>,
             \<lparr>caption = ''Call Bob'', body = [], task_done = False, task_id = ''u2'', createdAt = 6, updatedAt = 6\<rparr>]"
  have g: "getTasksFromStorage (saveTasksToStorage ?ts Map.empty) = Inr ?ts" by simp
  have d: "distinct (map task_id ?ts)" by simp
  show ?thesis using updateTask_duplicate_id [OF g d, of 1 0 9] g d by (simp add: Let_def)
qed

lemma date_cmp_key:
  "date_cmp ascending = (\<lambda>a b. (if ascending then createdAt a else - createdAt a) -
                                (if ascending then createdAt b else - createdAt b))"
  by (auto simp: date_cmp_def Let_def fun_eq_iff)

lemma sorted_neg_map: "sorted (map (\<lambda>t. - (g t :: int)) xs) \<longleftrightarrow> sorted_wrt (\<ge>) (map g xs)"
  by (simp add: sorted_wrt_map)

text \<open>
  C8. \<open>getTasksSortedByDate\<close> returns the stored tasks reordered, none lost or added:
  by non-decreasing \<open>createdAt\<close> when ascending, non-increasing otherwise (section 8),
  tasks created at the same millisecond in their stored order; it is the stable sort of
  the library, \<open>sort_key\<close>, by \<open>createdAt\<close> or its negation.
\<close>

theorem getTasksSortedByDate_sorted:
  assumes "getTasks ls = Inr ts"
  shows "\<exists>r. getTasksSortedByDate ls ascending = Inr r \<and> mset r = mset ts \<and>
           (if ascending then sorted (map createdAt r) else sorted_wrt (\<ge>) (map createdAt r)) \<and>
           r = sort_key (\<lambda>t. if ascending then createdAt t else - createdAt t) ts"
proof -
  let ?k = "\<lambda>t. if ascending then createdAt t else - createdAt t"
  have r: "js_sort (date_cmp ascending) ts = sort_key ?k ts"
    using js_sort_key [of ?k ts] by (simp add: date_cmp_key)
  have s: "sorted (map ?k (sort_key ?k ts))" by simp
  show ?thesis
  proof (cases ascending)
    case True
    with assms r s show ?thesis by (simp add: getTasks_def getTasksSortedByDate_def)
  next
    case False
    with assms r s show ?thesis
      by (simp add: getTasks_def getTasksSortedByDate_def sorted_neg_map)
  qed
qed

theorem getTasksSortedByDate_sorted_witness:
  "getTasks (saveTasksToStorage [\<lparr>caption = ''b'', body = ''x'', task_done = False, task_id = ''u2'', createdAt = 9, updatedAt = 9\<rparr>, \<lparr>caption = ''a'', body = ''y'', task_done = False, task_id = ''u1'', createdAt = 3, updatedAt = 3\<rparr>] Map.empty) = Inr [\<lparr>caption = ''b'', body = ''x'', task_done = False, task_id = ''u2'', createdAt = 9, updatedAt = 9\<rparr>, \<lparr>caption = ''a'', body = ''y'', task_done = False, task_id = ''u1'', createdAt = 3, updatedAt = 3\<rparr>] \<and>
   (\<exists>r. getTasksSortedByDate (saveTasksToStorage [\<lparr>caption = ''b'', body = ''x'', task_done = False, task_id = ''u2'', createdAt = 9, updatedAt = 9\<rparr>, \<lparr>caption = ''a'', body = ''y'', task_done = False, task_id = ''u1'', createdAt = 3, updatedAt = 3\<rparr>] Map.empty) False = Inr r \<and> mset r = mset [\<lparr>caption = ''b'', body = ''x'', task_done = False, task_id = ''u2'', createdAt = 9, updatedAt = 9\<rparr>, \<lparr>caption = ''a'', body = ''y'', task_done = False, task_id = ''u1'', createdAt = 3, updatedAt = 3\<rparr>] \<and>
     (if False then sorted (map createdAt r) else sorted_wrt (\<ge>) (map createdAt r)) \<and>
     r = sort_key (\<lambda>t. if False then createdAt t else - createdAt t) [\<lparr>caption = ''b'', body = ''x'', task_done = False, task_id = ''u2'', createdAt = 9, updatedAt = 9\<rparr>, \<lparr>caption = ''a'', body = ''y'', task_done = False, task_id = ''u1'', createdAt = 3, updatedAt = 3\<rparr>])"
proof -
  have h: "getTasks (saveTasksToStorage [\<lparr>caption = ''b'', body = ''x'', task_done = False, task_id = ''u2'', createdAt = 9, updatedAt = 9\<rparr>, \<lparr>caption = ''a'', body = ''y'', task_done = False, task_id = ''u1'', createdAt = 3, updatedAt = 3\<rparr>] Map.empty) = Inr [\<lparr>caption = ''b'', body = ''x'', task_done = False, task_id = ''u2'', createdAt = 9, updatedAt = 9\<rparr>, \<lparr>caption = ''a'', body = ''y'', task_done = False, task_id = ''u1'', createdAt = 3, updatedAt = 3\<rparr>]" by simp
  show ?thesis by (rule conjI [OF h getTasksSortedByDate_sorted [OF h]])
qed

text \<open>
  C28. A task added at clock reading \<open>now1\<close> is returned, after the earlier tasks in the
  range and in stored order, by \<open>getTasksByDateRange\<close> for every range whose inclusive
  bounds contain \<open>now1\<close>.
\<close>

theorem added_task_in_range:
  assumes "getTasksFromStorage ls = Inr ts" and "addTask ls inp uid now1 now2 = Inr (nt, ls')"
    and "startDate \<le> now1" and "now1 \<le> endDate"
  shows "getTasksByDateRange ls' startDate endDate =
           Inr (filter (\<lambda>t. startDate \<le> createdAt t \<and> createdAt t \<le> endDate) ts @ [nt])"
  using assms by (auto simp: addTask_eq getTasksByDateRange_def task.defs task_input.defs)

theorem added_task_in_range_witness:
  "getTasksFromStorage Map.empty = Inr [] \<and>
   addTask Map.empty \<lparr>caption = ''Buy milk'', body = [], task_done = False\<rparr> ''u1'' 10 11 =
     Inr (task_input.extend \<lparr>caption = ''Buy milk'', body = [], task_done = False\<rparr> (task.fields ''u1'' 10 11),
          saveTasksToStorage [task_input.extend \<lparr>caption = ''Buy milk'', body = [], task_done = False\<rparr> (task.fields ''u1'' 10 11)] Map.empty) \<and>
   (0::int) \<le> 10 \<and> (10::int) \<le> 20 \<and>
   getTasksByDateRange (saveTasksToStorage [task_input.extend \<lparr>caption = ''Buy milk'', body = [], task_done = False\<rparr> (task.fields ''u1'' 10 11)] Map.empty) 0 20 =
     Inr [task_input.extend \<lparr>caption = ''Buy milk'', body = [], task_done = False\<rparr> (task.fields ''u1'' 10 11)]"
proof -
  have g: "getTasksFromStorage Map.empty = Inr []" by (simp add: getTasksFromStorage_def)
  have a: "addTask Map.empty \<lparr>caption = ''Buy milk'', body = [], task_done = False\<rparr> ''u1'' 10 11 =
     Inr (task_input.extend \<lparr>caption = ''Buy milk'', body = [], task_done = False\<rparr> (task.fields ''u1'' 10 11),
          saveTasksToStorage [task_input.extend \<lparr>caption = ''Buy milk'', body = [], task_done = False\<rparr> (task.fields ''u1'' 10 11)] Map.empty)"
    using addTask_eq [OF g] by simp
  show ?thesis using added_task_in_range [OF g a, of 0 20] g a by simp
qed

end
