(* ===== verification/TaskList.thy ===== *)
theory TaskList
  imports TaskService
begin

text \<open>
  The task list view of \<open>src/list/src/components/TaskList.tsx\<close>: its React state (the
  seven \<open>useState\<close> hooks) is the record \<open>tasklist_state\<close>; every event the page can
  deliver (the mount effect, typing into a field, a click) is a constructor of
  \<open>tasklist_event\<close>; \<open>tasklist_step\<close> runs the handler of an event on the view state
  and the local storage, calling the task store the way the handler does. A handler whose
  store call throws stops there (the rejected promise is not caught): the view state is
  left as it was, and so is the storage, since every store call throws before it writes.

  The services answer at once (their \<open>async\<close> bodies contain no \<open>await\<close>), so each
  handler runs to its end before the next event: the model applies events one at a time.
  Cards are rendered from \<open>tasks\<close>, so a click on a card is an event carrying the card's
  position in that list; a click on a card that is not rendered cannot happen and is a
  step that changes nothing.
\<close>

subsection \<open>View state and events\<close>

record tasklist_state =
  tasks :: "task list"
  isAddingTask :: bool
  newTaskCaption :: string
  newTaskBody :: string
  editingTaskId :: "uuid option"
  editTaskCaption :: string
  editTaskBody :: string

definition init_tasklist :: tasklist_state where
  "init_tasklist = \<lparr>tasks = [], isAddingTask = False, newTaskCaption = [], newTaskBody = [],
     editingTaskId = None, editTaskCaption = [], editTaskBody = []\<rparr>"

text \<open>
  The values an event takes from the environment ride on it: the identifier and the two
  clock readings of \<open>addTask\<close>, the clock reading of \<open>updateTask\<close>.
\<close>

datatype tasklist_event =
    LoadTasks
  | OpenAddDialog
  | SetNewCaption string
  | SetNewBody string
  | CloseAddDialog
  | AddTaskClick uuid timestamp timestamp
  | EditClick nat
  | SetEditCaption string
  | SetEditBody string
  | CancelEdit
  | SaveClick nat timestamp
  | ToggleClick nat timestamp
  | RemoveClick nat

subsection \<open>String trimming\<close>

text \<open>
  \<open>String.prototype.trim\<close> removes white space and line terminators at both ends. A
  \<open>char\<close> is one byte here, so the white space that fits is tab, line feed, vertical
  tab, form feed, carriage return, space and no-break space (\<open>0xA0\<close>).
\<close>

definition is_js_whitespace :: "char \<Rightarrow> bool" where
  "is_js_whitespace c \<longleftrightarrow> of_char c \<in> {9, 10, 11, 12, 13, 32, 160 :: nat}"

definition js_trim :: "string \<Rightarrow> string" where
  "js_trim s = rev (dropWhile is_js_whitespace (rev (dropWhile is_js_whitespace s)))"

subsection \<open>Handlers\<close>

text \<open>\<open>tasks.map(task => task.id === id ? updatedTask : task)\<close>.\<close>

definition replace_task :: "uuid \<Rightarrow> task \<Rightarrow> task list \<Rightarrow> task list" where
  "replace_task tid ut ts = map (\<lambda>t. if task_id t = tid then ut else t) ts"

text \<open>\<open>loadTasks\<close>, the mount effect: \<open>setTasks(await taskService.getTasks())\<close>.\<close>

definition loadTasks :: "tasklist_state \<Rightarrow> local_storage \<Rightarrow> task_error + (tasklist_state \<times> local_storage)" where
  "loadTasks st ls =
     (case getTasks ls of
        Inl e \<Rightarrow> Inl e
      | Inr loaded \<Rightarrow> Inr (st\<lparr>tasks := loaded\<rparr>, ls))"

definition handleAddTask :: "tasklist_state \<Rightarrow> local_storage \<Rightarrow> uuid \<Rightarrow> timestamp \<Rightarrow> timestamp \<Rightarrow>
    task_error + (tasklist_state \<times> local_storage)" where
  "handleAddTask st ls uid now1 now2 =
     (if js_trim (newTaskCaption st) = [] then Inr (st, ls)
      else
        (case addTask ls \<lparr>caption = newTaskCaption st, body = newTaskBody st, task_done = False\<rparr>
                uid now1 now2 of
           Inl e \<Rightarrow> Inl e
         | Inr (newTask, ls') \<Rightarrow>
             Inr (st\<lparr>tasks := tasks st @ [newTask], newTaskCaption := [], newTaskBody := [],
                     isAddingTask := False\<rparr>, ls')))"

definition handleEditTask :: "tasklist_state \<Rightarrow> local_storage \<Rightarrow> uuid \<Rightarrow> timestamp \<Rightarrow>
    task_error + (tasklist_state \<times> local_storage)" where
  "handleEditTask st ls tid now =
     (if js_trim (editTaskCaption st) = [] then Inr (st, ls)
      else
        (case updateTask ls tid
                (empty_patch\<lparr>patch_caption := Some (editTaskCaption st),
                             patch_body := Some (editTaskBody st)\<rparr>) now of
           Inl e \<Rightarrow> Inl e
         | Inr (updatedTask, ls') \<Rightarrow>
             Inr (st\<lparr>tasks := replace_task tid updatedTask (tasks st), editingTaskId := None\<rparr>, ls')))"

definition handleDeleteTask :: "tasklist_state \<Rightarrow> local_storage \<Rightarrow> uuid \<Rightarrow>
    task_error + (tasklist_state \<times> local_storage)" where
  "handleDeleteTask st ls tid =
     (case deleteTask ls tid of
        Inl e \<Rightarrow> Inl e
      | Inr ls' \<Rightarrow> Inr (st\<lparr>tasks := filter (\<lambda>t. task_id t \<noteq> tid) (tasks st)\<rparr>, ls'))"

text \<open>
  \<open>toggleTaskDone\<close>: the patch is the whole cached task, \<open>{...task, done: !task.done}\<close>,
  so every field of the cached copy is written back.
\<close>

definition task_as_patch :: "task \<Rightarrow> task_patch" where
  "task_as_patch t =
     \<lparr>patch_id = Some (task_id t), patch_caption = Some (caption t), patch_body = Some (body t),
      patch_done = Some (task_done t), patch_createdAt = Some (createdAt t),
      patch_updatedAt = Some (updatedAt t)\<rparr>"

definition toggleTaskDone :: "tasklist_state \<Rightarrow> local_storage \<Rightarrow> uuid \<Rightarrow> timestamp \<Rightarrow>
    task_error + (tasklist_state \<times> local_storage)" where
  "toggleTaskDone st ls tid now =
     (case find (\<lambda>t. task_id t = tid) (tasks st) of
        None \<Rightarrow> Inr (st, ls)
      | Some task \<Rightarrow>
          (case updateTask ls tid (task_as_patch (task\<lparr>task_done := \<not> task_done task\<rparr>)) now of
             Inl e \<Rightarrow> Inl e
           | Inr (updatedTask, ls') \<Rightarrow>
               Inr (st\<lparr>tasks := replace_task tid updatedTask (tasks st)\<rparr>, ls')))"

text \<open>
  The event loop. A card event for position \<open>k\<close> acts on \<open>tasks ! k\<close> when \<open>k\<close> is a
  rendered position; the Save button exists only on the card being edited.
\<close>

fun tasklist_handle :: "tasklist_state \<Rightarrow> local_storage \<Rightarrow> tasklist_event \<Rightarrow>
    task_error + (tasklist_state \<times> local_storage)" where
  "tasklist_handle st ls LoadTasks = loadTasks st ls"
| "tasklist_handle st ls OpenAddDialog = Inr (st\<lparr>isAddingTask := True\<rparr>, ls)"
| "tasklist_handle st ls (SetNewCaption s) = Inr (st\<lparr>newTaskCaption := s\<rparr>, ls)"
| "tasklist_handle st ls (SetNewBody s) = Inr (st\<lparr>newTaskBody := s\<rparr>, ls)"
| "tasklist_handle st ls CloseAddDialog = Inr (st\<lparr>isAddingTask := False\<rparr>, ls)"
| "tasklist_handle st ls (AddTaskClick uid now1 now2) =
     (if isAddingTask st then handleAddTask st ls uid now1 now2 else Inr (st, ls))"
| "tasklist_handle st ls (EditClick k) =
     (if k < length (tasks st) then
        Inr (st\<lparr>editingTaskId := Some (task_id (tasks st ! k)), editTaskCaption := caption (tasks st ! k),
                editTaskBody := body (tasks st ! k)\<rparr>, ls)
      else Inr (st, ls))"
| "tasklist_handle st ls (SetEditCaption s) = Inr (st\<lparr>editTaskCaption := s\<rparr>, ls)"
| "tasklist_handle st ls (SetEditBody s) = Inr (st\<lparr>editTaskBody := s\<rparr>, ls)"
| "tasklist_handle st ls CancelEdit = Inr (st\<lparr>editingTaskId := None\<rparr>, ls)"
| "tasklist_handle st ls (SaveClick k now) =
     (if k < length (tasks st) \<and> editingTaskId st = Some (task_id (tasks st ! k))
      then handleEditTask st ls (task_id (tasks st ! k)) now else Inr (st, ls))"
| "tasklist_handle st ls (ToggleClick k now) =
     (if k < length (tasks st) then toggleTaskDone st ls (task_id (tasks st ! k)) now else Inr (st, ls))"
| "tasklist_handle st ls (RemoveClick k) =
     (if k < length (tasks st) then handleDeleteTask st ls (task_id (tasks st ! k)) else Inr (st, ls))"

text \<open>One event: a handler that throws leaves view and storage as they were.\<close>

definition tasklist_step :: "tasklist_state \<times> local_storage \<Rightarrow> tasklist_event \<Rightarrow> tasklist_state \<times> local_storage" where
  "tasklist_step s ev = (case tasklist_handle (fst s) (snd s) ev of Inl _ \<Rightarrow> s | Inr s' \<Rightarrow> s')"

subsection \<open>The view and the store together\<close>

text \<open>
  The view is coherent with the store when its cached list is the stored list; the
  invariant adds what the handlers keep true of that list: identifiers are unique and,
  as every caption reaches the store through the trim checks, no caption is blank.
\<close>

definition ui_inv :: "tasklist_state \<times> local_storage \<Rightarrow> bool" where
  "ui_inv s \<longleftrightarrow>
     getTasks (snd s) = Inr (tasks (fst s)) \<and> distinct (map task_id (tasks (fst s))) \<and>
     (\<forall>t \<in> set (tasks (fst s)). js_trim (caption t) \<noteq> [])"

text \<open>\<open>crypto.randomUUID()\<close> gives an identifier that no task in the view has.\<close>

definition event_ok :: "tasklist_state \<times> local_storage \<Rightarrow> tasklist_event \<Rightarrow> bool" where
  "event_ok s ev = (case ev of AddTaskClick uid _ _ \<Rightarrow> uid \<notin> task_id ` set (tasks (fst s)) | _ \<Rightarrow> True)"

inductive tasklist_reachable :: "tasklist_state \<times> local_storage \<Rightarrow> bool" where
  init: "tasklist_reachable (init_tasklist, Map.empty)"
| step: "tasklist_reachable s \<Longrightarrow> event_ok s ev \<Longrightarrow> tasklist_reachable (tasklist_step s ev)"

subsection \<open>Lemmas\<close>

lemma replace_task_update:
  assumes "distinct (map task_id ts)" and "i < length ts" and "task_id (ts ! i) = tid"
  shows "replace_task tid u ts = ts[i := u]"
proof (rule nth_equalityI)
  show "length (replace_task tid u ts) = length (ts[i := u])" by (simp add: replace_task_def)
next
  fix j assume "j < length (replace_task tid u ts)"
  then have j: "j < length ts" by (simp add: replace_task_def)
  have "task_id (ts ! j) = tid \<longleftrightarrow> j = i"
    using distinct_task_index [OF assms(1,2) j] assms(3) by simp
  with j show "replace_task tid u ts ! j = ts[i := u] ! j"
    by (simp add: replace_task_def nth_list_update)
qed

lemma merge_patch_edit [simp]:
  "merge_patch t (empty_patch\<lparr>patch_caption := Some c, patch_body := Some b\<rparr>) now =
     t\<lparr>caption := c, body := b, updatedAt := now\<rparr>"
  by (simp add: merge_patch_def empty_patch_def)

lemma merge_patch_toggle [simp]:
  "merge_patch t (task_as_patch (t\<lparr>task_done := d\<rparr>)) now = t\<lparr>task_done := d, updatedAt := now\<rparr>"
  by (simp add: merge_patch_def task_as_patch_def)

lemma merge_patch_whole:
  "merge_patch s (task_as_patch x) now = x\<lparr>updatedAt := now\<rparr>"
  by (simp add: merge_patch_def task_as_patch_def)

lemma set_update_nonblank:
  "\<forall>t \<in> set ts. P (caption t) \<Longrightarrow> P (caption u) \<Longrightarrow> \<forall>t \<in> set (ts[i := u]). P (caption t)"
  using set_update_subset_insert [of ts i u] by auto

lemma distinct_update_same_id:
  "distinct (map task_id ts) \<Longrightarrow> task_id u = task_id (ts ! i) \<Longrightarrow>
   distinct (map task_id (ts[i := u]))"
  by (metis list_update_id map_update)

lemma filter_other_ids:
  assumes "distinct (map task_id ts)" and "k < length ts"
  shows "filter (\<lambda>t. task_id t \<noteq> task_id (ts ! k)) ts = take k ts @ drop (Suc k) ts"
proof -
  have eq: "ts = take k ts @ ts ! k # drop (Suc k) ts" using assms(2) by (rule id_take_nth_drop)
  then have d: "distinct (map task_id (take k ts @ ts ! k # drop (Suc k) ts))" using assms(1) by simp
  have "filter (\<lambda>t. task_id t \<noteq> task_id (ts ! k)) (take k ts @ ts ! k # drop (Suc k) ts) =
        take k ts @ drop (Suc k) ts"
  proof -
    have a: "task_id (ts ! k) \<notin> task_id ` set (take k ts)"
      and b: "task_id (ts ! k) \<notin> task_id ` set (drop (Suc k) ts)" using d by simp_all
    have "filter (\<lambda>t. task_id t \<noteq> task_id (ts ! k)) (take k ts) = take k ts"
      using a by (auto simp: filter_id_conv) (metis imageI)
    moreover have "filter (\<lambda>t. task_id t \<noteq> task_id (ts ! k)) (drop (Suc k) ts) = drop (Suc k) ts"
      using b by (auto simp: filter_id_conv) (metis imageI)
    ultimately show ?thesis by simp
  qed
  with eq show ?thesis by metis
qed

lemma ui_invI:
  "getTasksFromStorage ls = Inr ts \<Longrightarrow> distinct (map task_id ts) \<Longrightarrow>
   (\<forall>t \<in> set ts. js_trim (caption t) \<noteq> []) \<Longrightarrow> tasks st = ts \<Longrightarrow> ui_inv (st, ls)"
  by (simp add: ui_inv_def getTasks_def)

lemma ui_invD:
  assumes "ui_inv (st, ls)"
  shows "getTasksFromStorage ls = Inr (tasks st)" and "distinct (map task_id (tasks st))"
    and "\<forall>t \<in> set (tasks st). js_trim (caption t) \<noteq> []"
  using assms by (simp_all add: ui_inv_def getTasks_def)

lemma inv_add:
  assumes inv: "ui_inv (st, ls)" and fresh: "uid \<notin> task_id ` set (tasks st)"
  shows "ui_inv (tasklist_step (st, ls) (AddTaskClick uid now1 now2))"
proof (cases "isAddingTask st \<and> js_trim (newTaskCaption st) \<noteq> []")
  case True
  let ?nt = "task_input.extend \<lparr>caption = newTaskCaption st, body = newTaskBody st, task_done = False\<rparr>
               (task.fields uid now1 now2)"
  have nt: "task_id ?nt = uid" "caption ?nt = newTaskCaption st"
    by (simp_all add: task.defs task_input.defs)
  have "ui_inv (st\<lparr>tasks := tasks st @ [?nt], newTaskCaption := [], newTaskBody := [],
                    isAddingTask := False\<rparr>, saveTasksToStorage (tasks st @ [?nt]) ls)"
    using ui_invD [OF inv] fresh True nt by (intro ui_invI) auto
  with True show ?thesis
    by (simp add: tasklist_step_def handleAddTask_def addTask_eq [OF ui_invD(1) [OF inv]])
next
  case False
  with inv show ?thesis by (auto simp: tasklist_step_def handleAddTask_def)
qed

lemma inv_save:
  assumes inv: "ui_inv (st, ls)"
  shows "ui_inv (tasklist_step (st, ls) (SaveClick k now))"
proof (cases "k < length (tasks st) \<and> editingTaskId st = Some (task_id (tasks st ! k)) \<and>
              js_trim (editTaskCaption st) \<noteq> []")
  case True
  note d = ui_invD [OF inv]
  let ?u = "(tasks st ! k)\<lparr>caption := editTaskCaption st, body := editTaskBody st, updatedAt := now\<rparr>"
  have r: "replace_task (task_id (tasks st ! k)) ?u (tasks st) = (tasks st)[k := ?u]"
    using True d(2) by (intro replace_task_update) auto
  have dist': "distinct (map task_id ((tasks st)[k := ?u]))"
    by (rule distinct_update_same_id [OF d(2)]) simp
  have nb': "\<forall>t \<in> set ((tasks st)[k := ?u]). js_trim (caption t) \<noteq> []"
    by (rule set_update_nonblank [OF d(3)]) (simp add: True)
  have "ui_inv (st\<lparr>tasks := (tasks st)[k := ?u], editingTaskId := None\<rparr>,
                 saveTasksToStorage ((tasks st)[k := ?u]) ls)"
    by (rule ui_invI [OF getTasksFromStorage_save dist' nb']) simp
  with True r updateTask_distinct [OF d(1,2), of k] show ?thesis
    by (simp add: tasklist_step_def handleEditTask_def)
next
  case False
  with inv show ?thesis by (auto simp: tasklist_step_def handleEditTask_def)
qed

lemma inv_toggle:
  assumes inv: "ui_inv (st, ls)"
  shows "ui_inv (tasklist_step (st, ls) (ToggleClick k now))"
proof (cases "k < length (tasks st)")
  case True
  note d = ui_invD [OF inv]
  let ?t = "tasks st ! k"
  let ?u = "?t\<lparr>task_done := \<not> task_done ?t, updatedAt := now\<rparr>"
  have r: "replace_task (task_id ?t) ?u (tasks st) = (tasks st)[k := ?u]"
    using True d(2) by (intro replace_task_update) auto
  have dist': "distinct (map task_id ((tasks st)[k := ?u]))"
    by (rule distinct_update_same_id [OF d(2)]) simp
  have nb': "\<forall>t \<in> set ((tasks st)[k := ?u]). js_trim (caption t) \<noteq> []"
    using d(3) True by (intro set_update_nonblank) auto
  have "ui_inv (st\<lparr>tasks := (tasks st)[k := ?u]\<rparr>, saveTasksToStorage ((tasks st)[k := ?u]) ls)"
    by (rule ui_invI [OF getTasksFromStorage_save dist' nb']) simp
  with True r find_distinct_task [OF d(2) True] updateTask_distinct [OF d(1,2) True] show ?thesis
    by (simp add: tasklist_step_def toggleTaskDone_def)
next
  case False
  with inv show ?thesis by (simp add: tasklist_step_def)
qed

lemma inv_remove:
  assumes inv: "ui_inv (st, ls)"
  shows "ui_inv (tasklist_step (st, ls) (RemoveClick k))"
proof (cases "k < length (tasks st)")
  case True
  note d = ui_invD [OF inv]
  have "ui_inv (st\<lparr>tasks := filter (\<lambda>t. task_id t \<noteq> task_id (tasks st ! k)) (tasks st)\<rparr>,
     saveTasksToStorage (filter (\<lambda>t. task_id t \<noteq> task_id (tasks st ! k)) (tasks st)) ls)"
    using d by (intro ui_invI) (auto simp: distinct_map_filter)
  with True d(1) show ?thesis
    by (simp add: tasklist_step_def handleDeleteTask_def deleteTask_eq spec_delete_def)
next
  case False
  with inv show ?thesis by (simp add: tasklist_step_def)
qed

lemma ui_inv_view_only:
  "ui_inv (st, ls) \<Longrightarrow> tasks st' = tasks st \<Longrightarrow> ui_inv (st', ls)"
  by (simp add: ui_inv_def)

lemma inv_load:
  assumes inv: "ui_inv (st, ls)"
  shows "ui_inv (tasklist_step (st, ls) LoadTasks)"
  using inv ui_invD(1) [OF inv] by (simp add: tasklist_step_def loadTasks_def getTasks_def)

lemma inv_edit_click:
  "ui_inv (st, ls) \<Longrightarrow> ui_inv (tasklist_step (st, ls) (EditClick k))"
  by (auto simp: tasklist_step_def intro: ui_inv_view_only)

lemma tasklist_step_inv:
  assumes inv: "ui_inv s" and ok: "event_ok s ev"
  shows "ui_inv (tasklist_step s ev)"
proof -
  obtain st ls where s: "s = (st, ls)" by (cases s)
  show ?thesis
  proof (cases ev)
    case (AddTaskClick uid now1 now2)
    with inv ok s show ?thesis by (simp add: event_ok_def inv_add)
  next
    case LoadTasks
    with inv s show ?thesis by (simp add: inv_load)
  next
    case (EditClick k)
    with inv s show ?thesis by (simp add: inv_edit_click)
  next
    case (SaveClick k now)
    with inv s show ?thesis by (simp add: inv_save)
  next
    case (ToggleClick k now)
    with inv s show ?thesis by (simp add: inv_toggle)
  next
    case (RemoveClick k)
    with inv s show ?thesis by (simp add: inv_remove)
  qed (use inv s in \<open>auto simp: tasklist_step_def intro: ui_inv_view_only\<close>)
qed


subsection \<open>Properties of the view\<close>

text \<open>
  C17. In every state the page reaches from an empty store by the events of the view
  (fresh identifiers from \<open>crypto.randomUUID()\<close>), the list the view shows is the
  stored list, its identifiers are unique, and no stored caption is empty or white
  space only: the trim checks of \<open>handleAddTask\<close> and \<open>handleEditTask\<close> guard every
  way a caption reaches the store.
\<close>

theorem tasklist_reachable_inv:
  assumes "tasklist_reachable s"
  shows "getTasks (snd s) = Inr (tasks (fst s)) \<and> distinct (map task_id (tasks (fst s))) \<and>
         (\<forall>t \<in> set (tasks (fst s)). js_trim (caption t) \<noteq> [])"
proof -
  from assms have "ui_inv s"
  proof (induction rule: tasklist_reachable.induct)
    case init
    show ?case by (simp add: ui_inv_def init_tasklist_def getTasks_def)
  next
    case (step s ev)
    from step.IH step.hyps(2) show ?case by (rule tasklist_step_inv)
  qed
  then show ?thesis by (simp add: ui_inv_def)
qed

theorem tasklist_reachable_inv_witness:
  "tasklist_reachable
     (tasklist_step (tasklist_step (tasklist_step (init_tasklist, Map.empty) OpenAddDialog)
        (SetNewCaption ''Buy milk'')) (AddTaskClick ''a'' 1 1)) \<and>
   (let s = tasklist_step (tasklist_step (tasklist_step (init_tasklist, Map.empty) OpenAddDialog)
        (SetNewCaption ''Buy milk'')) (AddTaskClick ''a'' 1 1) in
    getTasks (snd s) = Inr (tasks (fst s)) \<and> distinct (map task_id (tasks (fst s))) \<and>
    list_all (\<lambda>t. js_trim (caption t) \<noteq> []) (tasks (fst s)) \<and> length (tasks (fst s)) = 1)"
proof -
  let ?s0 = "(init_tasklist, Map.empty :: local_storage)"
  let ?s1 = "tasklist_step ?s0 OpenAddDialog"
  let ?s2 = "tasklist_step ?s1 (SetNewCaption ''Buy milk'')"
  let ?s3 = "tasklist_step ?s2 (AddTaskClick ''a'' 1 1)"
  have r0: "tasklist_reachable ?s0" by (rule tasklist_reachable.init)
  have r1: "tasklist_reachable ?s1" by (rule tasklist_reachable.step [OF r0]) (simp add: event_ok_def)
  have r2: "tasklist_reachable ?s2" by (rule tasklist_reachable.step [OF r1]) (simp add: event_ok_def)
  have e: "event_ok ?s2 (AddTaskClick ''a'' 1 1)"
    by (simp add: event_ok_def tasklist_step_def init_tasklist_def)
  have r3: "tasklist_reachable ?s3" by (rule tasklist_reachable.step [OF r2 e])
  have len: "length (tasks (fst ?s3)) = 1"
    by (simp add: tasklist_step_def init_tasklist_def handleAddTask_def js_trim_def is_js_whitespace_def
        addTask_eq getTasks_def Let_def)
  show ?thesis using tasklist_reachable_inv [OF r3] r3 len by (simp add: list_all_iff Let_def)
qed

text \<open>
  C18. Clicking "Mark as Done/Undone" on a rendered card of a coherent view flips the
  done flag of that task and stamps it with \<open>now\<close>, in the view and in the store alike;
  nothing else of the task or of the list changes.
\<close>

theorem toggle_click:
  assumes "ui_inv (st, ls)" and "k < length (tasks st)"
  shows "tasklist_step (st, ls) (ToggleClick k now) =
           (st\<lparr>tasks := (tasks st)[k := (tasks st ! k)\<lparr>task_done := \<not> task_done (tasks st ! k),
                                                      updatedAt := now\<rparr>]\<rparr>,
            saveTasksToStorage ((tasks st)[k := (tasks st ! k)\<lparr>task_done := \<not> task_done (tasks st ! k),
                                                      updatedAt := now\<rparr>]) ls)"
proof -
  note d = ui_invD [OF assms(1)]
  let ?t = "tasks st ! k"
  let ?u = "?t\<lparr>task_done := \<not> task_done ?t, updatedAt := now\<rparr>"
  have r: "replace_task (task_id ?t) ?u (tasks st) = (tasks st)[k := ?u]"
    using assms(2) d(2) by (intro replace_task_update) auto
  with assms(2) find_distinct_task [OF d(2) assms(2)] updateTask_distinct [OF d(1,2) assms(2)]
  show ?thesis by (simp add: tasklist_step_def toggleTaskDone_def)
qed

theorem toggle_click_witness:
  "ui_inv (init_tasklist\<lparr>tasks := [\<lparr>caption = ''A'', body = ''x'', task_done = False, task_id = ''u1'', createdAt = 5, updatedAt = 5\<rparr>]\<rparr>, saveTasksToStorage [\<lparr>caption = ''A'', body = ''x'', task_done = False, task_id = ''u1'', createdAt = 5, updatedAt = 5\<rparr>] Map.empty) \<and>
   0 < length (tasks (init_tasklist\<lparr>tasks := [\<lparr>caption = ''A'', body = ''x'', task_done = False, task_id = ''u1'', createdAt = 5, updatedAt = 5\<rparr>]\<rparr>)) \<and>
   tasklist_step (init_tasklist\<lparr>tasks := [\<lparr>caption = ''A'', body = ''x'', task_done = False, task_id = ''u1'', createdAt = 5, updatedAt = 5\<rparr>]\<rparr>, saveTasksToStorage [\<lparr>caption = ''A'', body = ''x'', task_done = False, task_id = ''u1'', createdAt = 5, updatedAt = 5\<rparr>] Map.empty) (ToggleClick 0 7) =
     (init_tasklist\<lparr>tasks := [\<lparr>caption = ''A'', body = ''x'', task_done = False, task_id = ''u1'', createdAt = 5, updatedAt = 5\<rparr>]\<rparr>\<lparr>tasks := (tasks (init_tasklist\<lparr>tasks := [\<lparr>caption = ''A'', body = ''x'', task_done = False, task_id = ''u1'', createdAt = 5, updatedAt = 5\<rparr>]\<rparr>))[0 :=
        (tasks (init_tasklist\<lparr>tasks := [\<lparr>caption = ''A'', body = ''x'', task_done = False, task_id = ''u1'', createdAt = 5, updatedAt = 5\<rparr>]\<rparr>) ! 0)\<lparr>task_done := \<not> task_done (tasks (init_tasklist\<lparr>tasks := [\<lparr>caption = ''A'', body = ''x'', task_done = False, task_id = ''u1'', createdAt = 5, updatedAt = 5\<rparr>]\<rparr>) ! 0),
          updatedAt := 7\<rparr>]\<rparr>,
      saveTasksToStorage ((tasks (init_tasklist\<lparr>tasks := [\<lparr>caption = ''A'', body = ''x'', task_done = False, task_id = ''u1'', createdAt = 5, updatedAt = 5\<rparr>]\<rparr>))[0 :=
        (tasks (init_tasklist\<lparr>tasks := [\<lparr>caption = ''A'', body = ''x'', task_done = False, task_id = ''u1'', createdAt = 5, updatedAt = 5\<rparr>]\<rparr>) ! 0)\<lparr>task_done := \<not> task_done (tasks (init_tasklist\<lparr>tasks := [\<lparr>caption = ''A'', body = ''x'', task_done = False, task_id = ''u1'', createdAt = 5, updatedAt = 5\<rparr>]\<rparr>) ! 0),
          updatedAt := 7\<rparr>]) (saveTasksToStorage [\<lparr>caption = ''A'', body = ''x'', task_done = False, task_id = ''u1'', createdAt = 5, updatedAt = 5\<rparr>] Map.empty))"
proof -
  have h1: "ui_inv (init_tasklist\<lparr>tasks := [\<lparr>caption = ''A'', body = ''x'', task_done = False, task_id = ''u1'', createdAt = 5, updatedAt = 5\<rparr>]\<rparr>, saveTasksToStorage [\<lparr>caption = ''A'', body = ''x'', task_done = False, task_id = ''u1'', createdAt = 5, updatedAt = 5\<rparr>] Map.empty)"
    by (simp add: ui_inv_def init_tasklist_def js_trim_def is_js_whitespace_def)
  have h2: "0 < length (tasks (init_tasklist\<lparr>tasks := [\<lparr>caption = ''A'', body = ''x'', task_done = False, task_id = ''u1'', createdAt = 5, updatedAt = 5\<rparr>]\<rparr>))" by simp
  show ?thesis using toggle_click [OF h1 h2] h1 h2 by blast
qed

text \<open>
  C19. "Add Task" with a caption that is empty or white space only does nothing: no
  store call, no change of the view (the guard \<open>if (!newTaskCaption.trim()) return\<close>).
\<close>

theorem add_blank_caption_ignored:
  assumes "js_trim (newTaskCaption st) = []"
  shows "tasklist_step (st, ls) (AddTaskClick uid now1 now2) = (st, ls)"
  using assms by (simp add: tasklist_step_def handleAddTask_def)

theorem add_blank_caption_ignored_witness:
  "js_trim (newTaskCaption (init_tasklist\<lparr>isAddingTask := True, newTaskCaption := [CHR '' '', CHR 0x09]\<rparr>)) = [] \<and>
   tasklist_step (init_tasklist\<lparr>isAddingTask := True, newTaskCaption := [CHR '' '', CHR 0x09]\<rparr>, Map.empty)
     (AddTaskClick ''u1'' 5 5) =
   (init_tasklist\<lparr>isAddingTask := True, newTaskCaption := [CHR '' '', CHR 0x09]\<rparr>, Map.empty)"
proof -
  have h: "js_trim (newTaskCaption (init_tasklist\<lparr>isAddingTask := True, newTaskCaption := [CHR '' '', CHR 0x09]\<rparr>)) = []"
    by (simp add: js_trim_def is_js_whitespace_def)
  show ?thesis using add_blank_caption_ignored [OF h] h by blast
qed

text \<open>
  C20. The view writes back its cached copy when a task is toggled (the patch is
  \<open>{...task, done}\<close>): whatever the stored task with that identifier holds when the
  button is pressed, for instance a caption edited in another tab after this view
  loaded, it is replaced by the view's copy with the flag flipped and the new stamp, so
  the other edit is lost.
\<close>

theorem toggle_overwrites_stale_edit:
  assumes "getTasksFromStorage ls = Inr ss" and "distinct (map task_id ss)"
    and "distinct (map task_id (tasks st))" and "k < length (tasks st)"
    and "i < length ss" and "task_id (ss ! i) = task_id (tasks st ! k)"
  shows "getTasks (snd (tasklist_step (st, ls) (ToggleClick k now))) =
           Inr (ss[i := (tasks st ! k)\<lparr>task_done := \<not> task_done (tasks st ! k), updatedAt := now\<rparr>])"
proof -
  let ?t = "tasks st ! k"
  have f: "find (\<lambda>t. task_id t = task_id ?t) (tasks st) = Some ?t"
    by (rule find_distinct_task [OF assms(3,4)])
  have u: "updateTask ls (task_id ?t) (task_as_patch (?t\<lparr>task_done := \<not> task_done ?t\<rparr>)) now =
      Inr (?t\<lparr>task_done := \<not> task_done ?t, updatedAt := now\<rparr>,
           saveTasksToStorage (ss[i := ?t\<lparr>task_done := \<not> task_done ?t, updatedAt := now\<rparr>]) ls)"
    using updateTask_distinct [OF assms(1,2,5), of "task_as_patch (?t\<lparr>task_done := \<not> task_done ?t\<rparr>)" now]
          assms(6) by (simp add: merge_patch_whole)
  show ?thesis using assms(4) f u by (simp add: tasklist_step_def toggleTaskDone_def)
qed

text \<open>
  C29. "Save" on the card being edited, with a caption that is not blank, writes the
  edited caption and body and the clock reading into that task, in the view and in the
  store alike, and leaves edit mode; no other task changes.
\<close>

theorem save_click:
  assumes "ui_inv (st, ls)" and "k < length (tasks st)"
    and "editingTaskId st = Some (task_id (tasks st ! k))" and "js_trim (editTaskCaption st) \<noteq> []"
  shows "tasklist_step (st, ls) (SaveClick k now) =
           (st\<lparr>tasks := (tasks st)[k := (tasks st ! k)\<lparr>caption := editTaskCaption st, body := editTaskBody st,
                                                        updatedAt := now\<rparr>],
               editingTaskId := None\<rparr>,
            saveTasksToStorage ((tasks st)[k := (tasks st ! k)\<lparr>caption := editTaskCaption st,
                                  body := editTaskBody st, updatedAt := now\<rparr>]) ls)"
proof -
  note d = ui_invD [OF assms(1)]
  let ?u = "(tasks st ! k)\<lparr>caption := editTaskCaption st, body := editTaskBody st, updatedAt := now\<rparr>"
  have r: "replace_task (task_id (tasks st ! k)) ?u (tasks st) = (tasks st)[k := ?u]"
    using assms(2) d(2) by (intro replace_task_update) auto
  with assms updateTask_distinct [OF d(1,2) assms(2)] show ?thesis
    by (simp add: tasklist_step_def handleEditTask_def)
qed

text \<open>
  C30. "Remove" on a rendered card of a coherent view removes exactly that card, from
  the view and from the store, keeping the order of the others.
\<close>

theorem remove_click:
  assumes "ui_inv (st, ls)" and "k < length (tasks st)"
  shows "tasklist_step (st, ls) (RemoveClick k) =
           (st\<lparr>tasks := take k (tasks st) @ drop (Suc k) (tasks st)\<rparr>,
            saveTasksToStorage (take k (tasks st) @ drop (Suc k) (tasks st)) ls)"
  using assms ui_invD [OF assms(1)] filter_other_ids [of "tasks st" k]
  by (simp add: tasklist_step_def handleDeleteTask_def deleteTask_eq spec_delete_def)

text \<open>
  C31. "Save" with an edited caption that is empty or white space only does nothing:
  no store call, and the card stays in edit mode (the guard
  \<open>if (!editTaskCaption.trim()) return\<close> of \<open>handleEditTask\<close>).
\<close>

theorem save_blank_caption_ignored:
  assumes "js_trim (editTaskCaption st) = []"
  shows "tasklist_step (st, ls) (SaveClick k now) = (st, ls)"
  using assms by (simp add: tasklist_step_def handleEditTask_def)


theorem save_click_witness:
  "let st = init_tasklist\<lparr>tasks := [\<lparr>caption = ''A'', body = ''x'', task_done = False, task_id = ''u1'', createdAt = 5, updatedAt = 5\<rparr>, \<lparr>caption = ''B'', body = [], task_done = True, task_id = ''u2'', createdAt = 6, updatedAt = 8\<rparr>], editingTaskId := Some ''u2'', editTaskCaption := ''C'', editTaskBody := ''y''\<rparr>;
       ls = saveTasksToStorage [\<lparr>caption = ''A'', body = ''x'', task_done = False, task_id = ''u1'', createdAt = 5, updatedAt = 5\<rparr>, \<lparr>caption = ''B'', body = [], task_done = True, task_id = ''u2'', createdAt = 6, updatedAt = 8\<rparr>] Map.empty
   in ui_inv (st, ls) \<and> 1 < length (tasks st) \<and> editingTaskId st = Some (task_id (tasks st ! 1)) \<and>
      js_trim (editTaskCaption st) \<noteq> [] \<and>
      map caption (tasks (fst (tasklist_step (st, ls) (SaveClick 1 9)))) = [''A'', ''C''] \<and>
      getTasks (snd (tasklist_step (st, ls) (SaveClick 1 9))) = Inr (tasks (fst (tasklist_step (st, ls) (SaveClick 1 9))))"
proof -
  let ?st = "init_tasklist\<lparr>tasks := [\<lparr>caption = ''A'', body = ''x'', task_done = False, task_id = ''u1'', createdAt = 5, updatedAt = 5\<rparr>, \<lparr>caption = ''B'', body = [], task_done = True, task_id = ''u2'', createdAt = 6, updatedAt = 8\<rparr>], editingTaskId := Some ''u2'', editTaskCaption := ''C'', editTaskBody := ''y''\<rparr>"
  let ?ls = "saveTasksToStorage [\<lparr>caption = ''A'', body = ''x'', task_done = False, task_id = ''u1'', createdAt = 5, updatedAt = 5\<rparr>, \<lparr>caption = ''B'', body = [], task_done = True, task_id = ''u2'', createdAt = 6, updatedAt = 8\<rparr>] Map.empty"
  have h1: "ui_inv (?st, ?ls)" by (simp add: ui_inv_def init_tasklist_def js_trim_def is_js_whitespace_def)
  have h2: "1 < length (tasks ?st)" by simp
  have h3: "editingTaskId ?st = Some (task_id (tasks ?st ! 1))" by simp
  have h4: "js_trim (editTaskCaption ?st) \<noteq> []" by (simp add: js_trim_def is_js_whitespace_def)
  show ?thesis using save_click [OF h1 h2 h3 h4, of 9] h1 h2 h3 h4 by (simp add: Let_def)
qed

theorem remove_click_witness:
  "let st = init_tasklist\<lparr>tasks := [\<lparr>caption = ''A'', body = ''x'', task_done = False, task_id = ''u1'', createdAt = 5, updatedAt = 5\<rparr>, \<lparr>caption = ''B'', body = [], task_done = True, task_id = ''u2'', createdAt = 6, updatedAt = 8\<rparr>], editingTaskId := Some ''u2'', editTaskCaption := ''C'', editTaskBody := ''y''\<rparr>;
       ls = saveTasksToStorage [\<lparr>caption = ''A'', body = ''x'', task_done = False, task_id = ''u1'', createdAt = 5, updatedAt = 5\<rparr>, \<lparr>caption = ''B'', body = [], task_done = True, task_id = ''u2'', createdAt = 6, updatedAt = 8\<rparr>] Map.empty
   in ui_inv (st, ls) \<and> 0 < length (tasks st) \<and>
      map task_id (tasks (fst (tasklist_step (st, ls) (RemoveClick 0)))) = [''u2''] \<and>
      getTasks (snd (tasklist_step (st, ls) (RemoveClick 0))) = Inr (tasks (fst (tasklist_step (st, ls) (RemoveClick 0))))"
proof -
  let ?st = "init_tasklist\<lparr>tasks := [\<lparr>caption = ''A'', body = ''x'', task_done = False, task_id = ''u1'', createdAt = 5, updatedAt = 5\<rparr>, \<lparr>caption = ''B'', body = [], task_done = True, task_id = ''u2'', createdAt = 6, updatedAt = 8\<rparr>], editingTaskId := Some ''u2'', editTaskCaption := ''C'', editTaskBody := ''y''\<rparr>"
  let ?ls = "saveTasksToStorage [\<lparr>caption = ''A'', body = ''x'', task_done = False, task_id = ''u1'', createdAt = 5, updatedAt = 5\<rparr>, \<lparr>caption = ''B'', body = [], task_done = True, task_id = ''u2'', createdAt = 6, updatedAt = 8\<rparr>] Map.empty"
  have h1: "ui_inv (?st, ?ls)" by (simp add: ui_inv_def init_tasklist_def js_trim_def is_js_whitespace_def)
  have h2: "0 < length (tasks ?st)" by simp
  show ?thesis using remove_click [OF h1 h2] h1 h2 by (simp add: Let_def)
qed

theorem save_blank_caption_ignored_witness:
  "let st = init_tasklist\<lparr>tasks := [\<lparr>caption = ''A'', body = ''x'', task_done = False, task_id = ''u1'', createdAt = 5, updatedAt = 5\<rparr>, \<lparr>caption = ''B'', body = [], task_done = True, task_id = ''u2'', createdAt = 6, updatedAt = 8\<rparr>], editingTaskId := Some ''u2'', editTaskCaption := ''  '', editTaskBody := ''y''\<rparr>;
       ls = saveTasksToStorage [\<lparr>caption = ''A'', body = ''x'', task_done = False, task_id = ''u1'', createdAt = 5, updatedAt = 5\<rparr>, \<lparr>caption = ''B'', body = [], task_done = True, task_id = ''u2'', createdAt = 6, updatedAt = 8\<rparr>] Map.empty
   in js_trim (editTaskCaption st) = [] \<and> tasklist_step (st, ls) (SaveClick 1 9) = (st, ls)"
proof -
  let ?st = "init_tasklist\<lparr>tasks := [\<lparr>caption = ''A'', body = ''x'', task_done = False, task_id = ''u1'', createdAt = 5, updatedAt = 5\<rparr>, \<lparr>caption = ''B'', body = [], task_done = True, task_id = ''u2'', createdAt = 6, updatedAt = 8\<rparr>], editingTaskId := Some ''u2'', editTaskCaption := ''  '', editTaskBody := ''y''\<rparr>"
  let ?ls = "saveTasksToStorage [\<lparr>caption = ''A'', body = ''x'', task_done = False, task_id = ''u1'', createdAt = 5, updatedAt = 5\<rparr>, \<lparr>caption = ''B'', body = [], task_done = True, task_id = ''u2'', createdAt = 6, updatedAt = 8\<rparr>] Map.empty"
  have h: "js_trim (editTaskCaption ?st) = []" by (simp add: js_trim_def is_js_whitespace_def)
  show ?thesis using save_blank_caption_ignored [OF h, of ?ls 1 9] h by (simp add: Let_def)
qed

theorem toggle_overwrites_stale_edit_witness:
  "let t = \<lparr>caption = ''A'', body = ''x'', task_done = False, task_id = ''u1'', createdAt = 5, updatedAt = 5\<rparr>;
       st = init_tasklist\<lparr>tasks := [t]\<rparr>;
       ls = saveTasksToStorage [t\<lparr>caption := ''B'', updatedAt := 6\<rparr>] Map.empty
   in getTasksFromStorage ls = Inr [t\<lparr>caption := ''B'', updatedAt := 6\<rparr>] \<and>
      getTasks (snd (tasklist_step (st, ls) (ToggleClick 0 7))) =
        Inr [t\<lparr>task_done := True, updatedAt := 7\<rparr>] \<and>
      caption (t\<lparr>task_done := True, updatedAt := 7\<rparr>) = ''A''"
proof -
  let ?t = "\<lparr>caption = ''A'', body = ''x'', task_done = False, task_id = ''u1'', createdAt = 5, updatedAt = 5\<rparr>"
  let ?st = "init_tasklist\<lparr>tasks := [?t]\<rparr>"
  let ?ls = "saveTasksToStorage [?t\<lparr>caption := ''B'', updatedAt := 6\<rparr>] Map.empty"
  have g: "getTasksFromStorage ?ls = Inr [?t\<lparr>caption := ''B'', updatedAt := 6\<rparr>]" by simp
  have d1: "distinct (map task_id [?t\<lparr>caption := ''B'', updatedAt := 6\<rparr>])" by simp
  have d2: "distinct (map task_id (tasks ?st))" by simp
  have k: "0 < length (tasks ?st)" by simp
  have i: "0 < length [?t\<lparr>caption := ''B'', updatedAt := 6\<rparr>]" by simp
  have e: "task_id ([?t\<lparr>caption := ''B'', updatedAt := 6\<rparr>] ! 0) = task_id (tasks ?st ! 0)" by simp
  show ?thesis using toggle_overwrites_stale_edit [OF g d1 d2 k i e, of 7] g by (simp add: Let_def)
qed

end
