(* ===== verification/UserService.thy ===== *)
theory UserService
  imports Prelude
begin

text \<open>
  The mock identity and session store of \<open>src/list/src/services/userService.ts\<close>. Its
  state is the in-memory array \<open>users\<close> of the singleton \<open>UserService\<close> (lost on a
  reload) and, in the browser, the cookie \<open>auth_token\<close> that \<open>js-cookie\<close> reads and
  writes. Both are fields of \<open>session_state\<close>; each method is a function from the state
  (and the values it takes from the environment: the clock, \<open>crypto.randomUUID()\<close>, the
  build mode) to its result and the new state.

  \<open>js-cookie\<close> is a library, modelled from its documentation: \<open>Cookies.set\<close> with
  \<open>expires: n\<close> stores the value with the expiry \<open>Date.now() + n * 864e5\<close> and the
  given attributes; \<open>Cookies.get\<close> returns the value of a cookie that has not expired,
  else \<open>undefined\<close>; \<open>Cookies.remove\<close> deletes it. The token is ASCII letters, digits
  and underscores, which its encoding leaves as they are.
\<close>

subsection \<open>Data\<close>

text \<open>\<open>interface User\<close>, and the stored record \<open>User & { password: string }\<close>.\<close>

record user =
  user_id :: uuid
  firstName :: string
  lastName :: string
  email :: string

record stored_user = user +
  password :: string

record register_data =
  reg_firstName :: string
  reg_lastName :: string
  reg_email :: string
  reg_password :: string

record cookie =
  cookie_value :: string
  cookie_expires :: timestamp
  cookie_secure :: bool
  cookie_sameSite :: string

type_synonym cookie_jar = "string \<Rightarrow> cookie option"

record session_state =
  users :: "stored_user list"
  cookies :: cookie_jar

definition COOKIE_NAME :: string where
  "COOKIE_NAME = ''auth_token''"

definition COOKIE_EXPIRY_DAYS :: int where
  "COOKIE_EXPIRY_DAYS = 7"

text \<open>Milliseconds in a day, \<open>864e5\<close> in \<open>js-cookie\<close>.\<close>

definition ms_per_day :: int where
  "ms_per_day = 86400000"

subsection \<open>The cookie jar (js-cookie)\<close>

definition cookies_get :: "cookie_jar \<Rightarrow> string \<Rightarrow> timestamp \<Rightarrow> string option" where
  "cookies_get jar name now =
     (case jar name of
        None \<Rightarrow> None
      | Some c \<Rightarrow> if now < cookie_expires c then Some (cookie_value c) else None)"

definition cookies_set :: "cookie_jar \<Rightarrow> string \<Rightarrow> string \<Rightarrow> int \<Rightarrow> bool \<Rightarrow> string \<Rightarrow>
    timestamp \<Rightarrow> cookie_jar" where
  "cookies_set jar name v expires_days secure sameSite now =
     jar(name \<mapsto> \<lparr>cookie_value = v, cookie_expires = now + expires_days * ms_per_day,
                  cookie_secure = secure, cookie_sameSite = sameSite\<rparr>)"

definition cookies_remove :: "cookie_jar \<Rightarrow> string \<Rightarrow> cookie_jar" where
  "cookies_remove jar name = jar(name := None)"

subsection \<open>The methods of \<open>UserService\<close>\<close>

definition getAuthToken :: "session_state \<Rightarrow> timestamp \<Rightarrow> string option" where
  "getAuthToken st now = cookies_get (cookies st) COOKIE_NAME now"

text \<open>
  \<open>setAuthToken\<close>: \<open>secure\<close> is \<open>process.env.NODE_ENV === 'production'\<close>, the
  parameter \<open>production\<close>; \<open>now\<close> is the clock reading \<open>js-cookie\<close> takes for the expiry.
\<close>

definition setAuthToken :: "session_state \<Rightarrow> string \<Rightarrow> bool \<Rightarrow> timestamp \<Rightarrow> session_state" where
  "setAuthToken st token production now =
     st\<lparr>cookies := cookies_set (cookies st) COOKIE_NAME token COOKIE_EXPIRY_DAYS production ''strict'' now\<rparr>"

definition removeAuthToken :: "session_state \<Rightarrow> session_state" where
  "removeAuthToken st = st\<lparr>cookies := cookies_remove (cookies st) COOKIE_NAME\<rparr>"

text \<open>\<open>register\<close>: the email check is an exact, case-sensitive comparison (\<open>some\<close>).\<close>

definition register :: "session_state \<Rightarrow> register_data \<Rightarrow> uuid \<Rightarrow> bool \<times> session_state" where
  "register st data uid =
     (if list_ex (\<lambda>u. email u = reg_email data) (users st) then (False, st)
      else
        (let newUser = \<lparr>user_id = uid, firstName = reg_firstName data, lastName = reg_lastName data,
                        email = reg_email data, password = reg_password data\<rparr>
         in (True, st\<lparr>users := users st @ [newUser]\<rparr>)))"

text \<open>The public projection \<open>{id, firstName, lastName, email}\<close>: the record truncation.\<close>

definition public_user :: "stored_user \<Rightarrow> user" where
  "public_user u = user.truncate u"

text \<open>
  \<open>login\<close>: \<open>users.find\<close> of the first exact email and password match; on success the
  token \<open>demo_token_${Date.now()}\<close> (clock reading \<open>now_token\<close>) is stored with the
  expiry computed from a second reading \<open>now_cookie\<close> inside \<open>Cookies.set\<close>. On failure
  nothing changes: an existing cookie stays.
\<close>

definition login :: "session_state \<Rightarrow> string \<Rightarrow> string \<Rightarrow> timestamp \<Rightarrow> timestamp \<Rightarrow> bool \<Rightarrow>
    user option \<times> session_state" where
  "login st e pw now_token now_cookie production =
     (case find (\<lambda>u. email u = e \<and> password u = pw) (users st) of
        Some u \<Rightarrow>
          (let token = ''demo_token_'' @ int_to_string now_token
           in (Some (public_user u), setAuthToken st token production now_cookie))
      | None \<Rightarrow> (None, st))"

definition logout :: "session_state \<Rightarrow> session_state" where
  "logout st = removeAuthToken st"

text \<open>
  \<open>getCurrentUser\<close>: no token (or the empty string, which is falsy) gives \<open>null\<close>;
  otherwise the first registered user, whoever logged in.
\<close>

definition getCurrentUser :: "session_state \<Rightarrow> timestamp \<Rightarrow> user option" where
  "getCurrentUser st now =
     (case getAuthToken st now of
        None \<Rightarrow> None
      | Some token \<Rightarrow>
          if token = [] then None
          else (case users st of [] \<Rightarrow> None | u # _ \<Rightarrow> Some (public_user u)))"

definition isAuthenticated :: "session_state \<Rightarrow> timestamp \<Rightarrow> bool" where
  "isAuthenticated st now = (case getAuthToken st now of None \<Rightarrow> False | Some token \<Rightarrow> token \<noteq> [])"

subsection \<open>The session as a state machine\<close>

text \<open>
  The calls that change the state, with their inputs; \<open>getCurrentUser\<close> and
  \<open>isAuthenticated\<close> only read it. A run applies a sequence of calls in order, as the
  single-threaded page does.
\<close>

datatype session_event =
    Register register_data uuid
  | Login string string timestamp timestamp bool
  | Logout

fun session_step :: "session_state \<Rightarrow> session_event \<Rightarrow> session_state" where
  "session_step st (Register d uid) = snd (register st d uid)"
| "session_step st (Login e pw now_token now_cookie production) =
     snd (login st e pw now_token now_cookie production)"
| "session_step st Logout = logout st"

definition session_run :: "session_state \<Rightarrow> session_event list \<Rightarrow> session_state" where
  "session_run st es = foldl session_step st es"

definition init_session :: session_state where
  "init_session = \<lparr>users = [], cookies = Map.empty\<rparr>"

text \<open>A successful login: the call finds a user.\<close>

definition login_succeeds :: "session_state \<Rightarrow> session_event \<Rightarrow> bool" where
  "login_succeeds st ev =
     (case ev of
        Login e pw _ _ _ \<Rightarrow> list_ex (\<lambda>u. email u = e \<and> password u = pw) (users st)
      | _ \<Rightarrow> False)"

text \<open>
  The clock readings of a call are not behind a time \<open>t\<close> at which the state is queried
  before the call: what a clock that does not go backwards guarantees.
\<close>

definition clock_not_behind :: "session_event \<Rightarrow> timestamp \<Rightarrow> bool" where
  "clock_not_behind ev t = (case ev of Login _ _ n1 n2 _ \<Rightarrow> t \<le> n1 \<and> t \<le> n2 | _ \<Rightarrow> True)"

subsection \<open>Lemmas\<close>

lemma register_users:
  "users (snd (register st d uid)) =
     (if list_ex (\<lambda>u. email u = reg_email d) (users st) then users st
      else users st @ [\<lparr>user_id = uid, firstName = reg_firstName d, lastName = reg_lastName d,
                        email = reg_email d, password = reg_password d\<rparr>])"
  by (simp add: register_def Let_def)

lemma login_users [simp]: "users (snd (login st e pw n1 n2 pm)) = users st"
  by (simp add: login_def Let_def setAuthToken_def split: option.splits)

lemma logout_users [simp]: "users (logout st) = users st"
  by (simp add: logout_def removeAuthToken_def)

lemma register_cookies [simp]: "cookies (snd (register st d uid)) = cookies st"
  by (simp add: register_def Let_def)

lemma distinct_emails_register:
  "distinct (map email (users st)) \<Longrightarrow> distinct (map email (users (snd (register st d uid))))"
  by (auto simp: register_users list_ex_iff)

lemma distinct_emails_step:
  "distinct (map email (users st)) \<Longrightarrow> distinct (map email (users (session_step st ev)))"
  by (cases ev) (simp_all add: distinct_emails_register)

lemma distinct_emails_run:
  "distinct (map email (users st)) \<Longrightarrow> distinct (map email (users (session_run st es)))"
  by (induction es arbitrary: st) (simp_all add: session_run_def distinct_emails_step)

lemma find_unique_email:
  assumes "distinct (map email us)" and "u \<in> set us"
  shows "find (\<lambda>v. email v = email u \<and> password v = password u) us = Some u"
  using assms by (induction us) (auto simp: image_iff)

lemma isAuthenticated_set:
  "isAuthenticated (setAuthToken st token pm now) t \<longleftrightarrow> token \<noteq> [] \<and> t < now + 7 * ms_per_day"
  by (auto simp: isAuthenticated_def getAuthToken_def setAuthToken_def cookies_get_def cookies_set_def
                 COOKIE_EXPIRY_DAYS_def)

lemma isAuthenticated_logout [simp]: "\<not> isAuthenticated (logout st) t"
  by (simp add: isAuthenticated_def getAuthToken_def logout_def removeAuthToken_def cookies_get_def
                cookies_remove_def)

lemma not_auth_login:
  "\<not> list_ex (\<lambda>u. email u = e \<and> password u = pw) (users st) \<Longrightarrow>
   snd (login st e pw n1 n2 pm) = st"
  by (simp add: login_def list_ex_iff find_None_iff [THEN iffD2])

subsection \<open>Properties of the session store\<close>

text \<open>
  C9. \<open>register\<close> with an email that is already registered returns \<open>false\<close> and
  changes nothing: in particular the stored password of the existing user stays
  (section 8).
\<close>

theorem register_existing_email:
  assumes "\<exists>u \<in> set (users st). email u = reg_email d"
  shows "register st d uid = (False, st)"
  using assms by (simp add: register_def list_ex_iff)

theorem register_existing_email_witness:
  "(\<exists>u \<in> set (users \<lparr>users = [\<lparr>user_id = ''a1'', firstName = ''Alice'', lastName = ''Smith'', email = ''alice@example.org'', password = ''pw1''\<rparr>], cookies = Map.empty\<rparr>). email u = reg_email \<lparr>reg_firstName = ''Al'', reg_lastName = ''S'', reg_email = ''alice@example.org'', reg_password = ''other''\<rparr>) \<and> register \<lparr>users = [\<lparr>user_id = ''a1'', firstName = ''Alice'', lastName = ''Smith'', email = ''alice@example.org'', password = ''pw1''\<rparr>], cookies = Map.empty\<rparr> \<lparr>reg_firstName = ''Al'', reg_lastName = ''S'', reg_email = ''alice@example.org'', reg_password = ''other''\<rparr> ''a2'' = (False, \<lparr>users = [\<lparr>user_id = ''a1'', firstName = ''Alice'', lastName = ''Smith'', email = ''alice@example.org'', password = ''pw1''\<rparr>], cookies = Map.empty\<rparr>)"
proof -
  have h: "\<exists>u \<in> set (users \<lparr>users = [\<lparr>user_id = ''a1'', firstName = ''Alice'', lastName = ''Smith'', email = ''alice@example.org'', password = ''pw1''\<rparr>], cookies = Map.empty\<rparr>). email u = reg_email \<lparr>reg_firstName = ''Al'', reg_lastName = ''S'', reg_email = ''alice@example.org'', reg_password = ''other''\<rparr>" by simp
  show ?thesis by (rule conjI [OF h register_existing_email [OF h]])
qed

text \<open>
  C10. \<open>login\<close> with the email and password of a registered user (emails being unique)
  returns that user's public projection, without the password, and stores the cookie
  \<open>auth_token\<close> with the value \<open>demo_token_<now>\<close>, the expiry seven days
  (604800000 ms) after the clock reading, \<open>secure\<close> exactly in production and
  \<open>sameSite=strict\<close>; the session is then authenticated until that expiry.
\<close>

theorem login_success:
  assumes "distinct (map email (users st))" and "u \<in> set (users st)"
  shows "\<exists>st'. login st (email u) (password u) now_token now_cookie production = (Some (public_user u), st') \<and>
           users st' = users st \<and>
           cookies st' COOKIE_NAME = Some \<lparr>cookie_value = ''demo_token_'' @ int_to_string now_token,
              cookie_expires = now_cookie + 604800000, cookie_secure = production,
              cookie_sameSite = ''strict''\<rparr> \<and>
           (\<forall>t. isAuthenticated st' t \<longleftrightarrow> t < now_cookie + 604800000)"
  using find_unique_email [OF assms] isAuthenticated_set
  by (simp add: login_def Let_def setAuthToken_def cookies_set_def COOKIE_EXPIRY_DAYS_def ms_per_day_def)

theorem login_success_witness:
  "distinct (map email (users \<lparr>users = [\<lparr>user_id = ''a1'', firstName = ''Alice'', lastName = ''Smith'', email = ''alice@example.org'', password = ''pw1''\<rparr>], cookies = Map.empty\<rparr>)) \<and> \<lparr>user_id = ''a1'', firstName = ''Alice'', lastName = ''Smith'', email = ''alice@example.org'', password = ''pw1''\<rparr> \<in> set (users \<lparr>users = [\<lparr>user_id = ''a1'', firstName = ''Alice'', lastName = ''Smith'', email = ''alice@example.org'', password = ''pw1''\<rparr>], cookies = Map.empty\<rparr>) \<and>
   (\<exists>st'. login \<lparr>users = [\<lparr>user_id = ''a1'', firstName = ''Alice'', lastName = ''Smith'', email = ''alice@example.org'', password = ''pw1''\<rparr>], cookies = Map.empty\<rparr> (email \<lparr>user_id = ''a1'', firstName = ''Alice'', lastName = ''Smith'', email = ''alice@example.org'', password = ''pw1''\<rparr>) (password \<lparr>user_id = ''a1'', firstName = ''Alice'', lastName = ''Smith'', email = ''alice@example.org'', password = ''pw1''\<rparr>) 100 101 True = (Some (public_user \<lparr>user_id = ''a1'', firstName = ''Alice'', lastName = ''Smith'', email = ''alice@example.org'', password = ''pw1''\<rparr>), st') \<and>
      users st' = users \<lparr>users = [\<lparr>user_id = ''a1'', firstName = ''Alice'', lastName = ''Smith'', email = ''alice@example.org'', password = ''pw1''\<rparr>], cookies = Map.empty\<rparr> \<and>
      cookies st' COOKIE_NAME = Some \<lparr>cookie_value = ''demo_token_'' @ int_to_string 100,
         cookie_expires = 101 + 604800000, cookie_secure = True, cookie_sameSite = ''strict''\<rparr> \<and>
      (\<forall>t. isAuthenticated st' t \<longleftrightarrow> t < 101 + 604800000))"
proof -
  have h1: "distinct (map email (users \<lparr>users = [\<lparr>user_id = ''a1'', firstName = ''Alice'', lastName = ''Smith'', email = ''alice@example.org'', password = ''pw1''\<rparr>], cookies = Map.empty\<rparr>))" by simp
  have h2: "\<lparr>user_id = ''a1'', firstName = ''Alice'', lastName = ''Smith'', email = ''alice@example.org'', password = ''pw1''\<rparr> \<in> set (users \<lparr>users = [\<lparr>user_id = ''a1'', firstName = ''Alice'', lastName = ''Smith'', email = ''alice@example.org'', password = ''pw1''\<rparr>], cookies = Map.empty\<rparr>)" by simp
  show ?thesis using login_success [OF h1 h2, of 100 101 True] h1 h2 by blast
qed

text \<open>
  C11. \<open>login\<close> with an email and password that match no registered user returns
  \<open>null\<close> and leaves the state as it was: the same answer for an unknown email and for
  a wrong password, and a cookie set by an earlier login stays.
\<close>

theorem login_failure:
  assumes "\<not> (\<exists>u \<in> set (users st). email u = e \<and> password u = pw)"
  shows "login st e pw now_token now_cookie production = (None, st)"
proof -
  from assms have "find (\<lambda>u. email u = e \<and> password u = pw) (users st) = None"
    by (simp add: find_None_iff)
  then show ?thesis by (simp add: login_def)
qed

theorem login_failure_witness:
  "\<not> (\<exists>u \<in> set (users \<lparr>users = [\<lparr>user_id = ''a1'', firstName = ''Alice'', lastName = ''Smith'', email = ''alice@example.org'', password = ''pw1''\<rparr>], cookies = Map.empty\<rparr>). email u = ''alice@example.org'' \<and> password u = ''wrong'') \<and>
   login \<lparr>users = [\<lparr>user_id = ''a1'', firstName = ''Alice'', lastName = ''Smith'', email = ''alice@example.org'', password = ''pw1''\<rparr>], cookies = Map.empty\<rparr> ''alice@example.org'' ''wrong'' 100 100 False = (None, \<lparr>users = [\<lparr>user_id = ''a1'', firstName = ''Alice'', lastName = ''Smith'', email = ''alice@example.org'', password = ''pw1''\<rparr>], cookies = Map.empty\<rparr>)"
proof -
  have h: "\<not> (\<exists>u \<in> set (users \<lparr>users = [\<lparr>user_id = ''a1'', firstName = ''Alice'', lastName = ''Smith'', email = ''alice@example.org'', password = ''pw1''\<rparr>], cookies = Map.empty\<rparr>). email u = ''alice@example.org'' \<and> password u = ''wrong'')" by simp
  show ?thesis by (rule conjI [OF h login_failure [OF h]])
qed

text \<open>
  C12. In every state reached from the empty registry by any sequence of
  \<open>register\<close>, \<open>login\<close> and \<open>logout\<close> calls, no two users share an email.
\<close>

theorem session_emails_distinct: "distinct (map email (users (session_run init_session es)))"
  by (rule distinct_emails_run) (simp add: init_session_def)

text \<open>
  C13. A session that is not authenticated at time \<open>t\<close> becomes authenticated at
  \<open>t\<close> by one call only if that call is a \<open>login\<close> that finds a user (section 4.2,
  state machine \<open>LoggedOut \<rightarrow> LoggedIn\<close>).
\<close>

theorem auth_rises_only_by_login:
  assumes "\<not> isAuthenticated st t" and "isAuthenticated (session_step st ev) t"
  shows "login_succeeds st ev"
proof (cases ev)
  case (Register d uid)
  with assms show ?thesis
    by (simp add: isAuthenticated_def getAuthToken_def)
next
  case (Login e pw n1 n2 pm)
  show ?thesis
  proof (rule ccontr)
    assume "\<not> login_succeeds st ev"
    with Login have "\<not> list_ex (\<lambda>u. email u = e \<and> password u = pw) (users st)"
      by (simp add: login_succeeds_def)
    then have "snd (login st e pw n1 n2 pm) = st" by (rule not_auth_login)
    with assms Login show False by simp
  qed
next
  case Logout
  with assms show ?thesis by simp
qed

theorem auth_rises_only_by_login_witness:
  "\<not> isAuthenticated \<lparr>users = [\<lparr>user_id = ''a1'', firstName = ''Alice'', lastName = ''Smith'', email = ''alice@example.org'', password = ''pw1''\<rparr>], cookies = Map.empty\<rparr> 100 \<and>
   isAuthenticated (session_step \<lparr>users = [\<lparr>user_id = ''a1'', firstName = ''Alice'', lastName = ''Smith'', email = ''alice@example.org'', password = ''pw1''\<rparr>], cookies = Map.empty\<rparr> (Login ''alice@example.org'' ''pw1'' 100 100 False)) 100 \<and>
   login_succeeds \<lparr>users = [\<lparr>user_id = ''a1'', firstName = ''Alice'', lastName = ''Smith'', email = ''alice@example.org'', password = ''pw1''\<rparr>], cookies = Map.empty\<rparr> (Login ''alice@example.org'' ''pw1'' 100 100 False)"
proof -
  have h1: "\<not> isAuthenticated \<lparr>users = [\<lparr>user_id = ''a1'', firstName = ''Alice'', lastName = ''Smith'', email = ''alice@example.org'', password = ''pw1''\<rparr>], cookies = Map.empty\<rparr> 100"
    by (simp add: isAuthenticated_def getAuthToken_def cookies_get_def)
  have h2: "isAuthenticated (session_step \<lparr>users = [\<lparr>user_id = ''a1'', firstName = ''Alice'', lastName = ''Smith'', email = ''alice@example.org'', password = ''pw1''\<rparr>], cookies = Map.empty\<rparr> (Login ''alice@example.org'' ''pw1'' 100 100 False)) 100"
    by (simp add: login_def Let_def isAuthenticated_set ms_per_day_def int_to_string_def)
  show ?thesis using auth_rises_only_by_login [OF h1 h2] h1 h2 by blast
qed

text \<open>
  C14. An authenticated session stops being authenticated at the same instant by one call
  only if the call is \<open>logout\<close>, when the call's clock readings are not behind that
  instant. Over time it also ends when the cookie expires (C10), which section 8 does
  not mention.
\<close>

theorem auth_falls_only_by_logout:
  assumes "isAuthenticated st t" and "clock_not_behind ev t"
    and "\<not> isAuthenticated (session_step st ev) t"
  shows "ev = Logout"
proof (cases ev)
  case (Register d uid)
  with assms show ?thesis by (simp add: isAuthenticated_def getAuthToken_def)
next
  case (Login e pw n1 n2 pm)
  show ?thesis
  proof (cases "list_ex (\<lambda>u. email u = e \<and> password u = pw) (users st)")
    case True
    then have "find (\<lambda>u. email u = e \<and> password u = pw) (users st) \<noteq> None"
      by (auto simp: list_ex_iff find_None_iff)
    then obtain u where "find (\<lambda>u. email u = e \<and> password u = pw) (users st) = Some u"
      by blast
    with Login assms(2) have "isAuthenticated (session_step st ev) t"
      by (simp add: login_def Let_def isAuthenticated_set clock_not_behind_def ms_per_day_def)
    with assms(3) show ?thesis by simp
  next
    case False
    with Login assms not_auth_login [of e pw st n1 n2 pm] show ?thesis by simp
  qed
qed (simp)

theorem auth_falls_only_by_logout_witness:
  "isAuthenticated (snd (login \<lparr>users = [\<lparr>user_id = ''a1'', firstName = ''Alice'', lastName = ''Smith'', email = ''alice@example.org'', password = ''pw1''\<rparr>], cookies = Map.empty\<rparr> ''alice@example.org'' ''pw1'' 100 100 False)) 200 \<and> clock_not_behind Logout 200 \<and>
   \<not> isAuthenticated (session_step (snd (login \<lparr>users = [\<lparr>user_id = ''a1'', firstName = ''Alice'', lastName = ''Smith'', email = ''alice@example.org'', password = ''pw1''\<rparr>], cookies = Map.empty\<rparr> ''alice@example.org'' ''pw1'' 100 100 False)) Logout) 200 \<and> Logout = Logout"
proof -
  have h1: "isAuthenticated (snd (login \<lparr>users = [\<lparr>user_id = ''a1'', firstName = ''Alice'', lastName = ''Smith'', email = ''alice@example.org'', password = ''pw1''\<rparr>], cookies = Map.empty\<rparr> ''alice@example.org'' ''pw1'' 100 100 False)) 200"
    by (simp add: login_def Let_def isAuthenticated_set ms_per_day_def int_to_string_def)
  have h2: "clock_not_behind Logout 200" by (simp add: clock_not_behind_def)
  have h3: "\<not> isAuthenticated (session_step (snd (login \<lparr>users = [\<lparr>user_id = ''a1'', firstName = ''Alice'', lastName = ''Smith'', email = ''alice@example.org'', password = ''pw1''\<rparr>], cookies = Map.empty\<rparr> ''alice@example.org'' ''pw1'' 100 100 False)) Logout) 200" by simp
  show ?thesis using auth_falls_only_by_logout [OF h1 h2 h3] h1 h2 h3 by blast
qed

text \<open>
  C15. After \<open>logout\<close> the session is not authenticated at any time and
  \<open>getCurrentUser\<close> returns \<open>null\<close>; the registry is kept.
\<close>

theorem logout_not_authenticated:
  "\<not> isAuthenticated (logout st) t \<and> users (logout st) = users st \<and> getCurrentUser (logout st) t = None"
  by (simp add: isAuthenticated_def getAuthToken_def logout_def removeAuthToken_def cookies_get_def
                cookies_remove_def getCurrentUser_def)

text \<open>
  C16. While authenticated, \<open>getCurrentUser\<close> returns the public projection of the
  first registered user, whatever the token (section 4.2, the design gap of section 9).
\<close>

theorem getCurrentUser_first_user:
  assumes "isAuthenticated st t"
  shows "getCurrentUser st t = (case users st of [] \<Rightarrow> None | u # _ \<Rightarrow> Some (public_user u))"
  using assms by (auto simp: isAuthenticated_def getCurrentUser_def split: option.splits)

theorem getCurrentUser_first_user_witness:
  "isAuthenticated (snd (login \<lparr>users = [\<lparr>user_id = ''a1'', firstName = ''Alice'', lastName = ''Smith'', email = ''alice@example.org'', password = ''pw1''\<rparr>], cookies = Map.empty\<rparr> ''alice@example.org'' ''pw1'' 100 100 False)) 200 \<and>
   getCurrentUser (snd (login \<lparr>users = [\<lparr>user_id = ''a1'', firstName = ''Alice'', lastName = ''Smith'', email = ''alice@example.org'', password = ''pw1''\<rparr>], cookies = Map.empty\<rparr> ''alice@example.org'' ''pw1'' 100 100 False)) 200 = (case users (snd (login \<lparr>users = [\<lparr>user_id = ''a1'', firstName = ''Alice'', lastName = ''Smith'', email = ''alice@example.org'', password = ''pw1''\<rparr>], cookies = Map.empty\<rparr> ''alice@example.org'' ''pw1'' 100 100 False)) of [] \<Rightarrow> None | u # _ \<Rightarrow> Some (public_user u))"
proof -
  have h: "isAuthenticated (snd (login \<lparr>users = [\<lparr>user_id = ''a1'', firstName = ''Alice'', lastName = ''Smith'', email = ''alice@example.org'', password = ''pw1''\<rparr>], cookies = Map.empty\<rparr> ''alice@example.org'' ''pw1'' 100 100 False)) 200"
    by (simp add: login_def Let_def isAuthenticated_set ms_per_day_def int_to_string_def)
  show ?thesis by (rule conjI [OF h getCurrentUser_first_user [OF h]])
qed

end
