(* ===== verification/App.thy ===== *)
theory App
  imports UserService
begin

text \<open>
  The application shell \<open>src/list/src/App.tsx\<close>: four pieces of React state, the
  \<open>checkAuth\<close> effect run once on mount, the \<open>handleLogin\<close> and \<open>handleLogout\<close>
  callbacks, and the choice of what is rendered (loading text, the task page with the
  avatar, or the login or register form). The \<open>Login\<close> and \<open>Register\<close> forms that
  \<open>App\<close> imports are not part of the sources; they are modelled from the contract:
  a form calls \<open>userService.login\<close> or \<open>userService.register\<close> and, on success, the
  callback \<open>App\<close> hands it. A page reload rebuilds the in-memory
  \<open>UserService\<close> singleton (its user registry starts empty) but keeps the cookie jar.
\<close>

subsection \<open>State and rendering\<close>

record app_state =
  app_isAuthenticated :: bool
  isLoading :: bool
  showRegister :: bool
  app_user :: "user option"

definition init_app :: app_state where
  "init_app = \<lparr>app_isAuthenticated = False, isLoading = True, showRegister = False, app_user = None\<rparr>"

text \<open>
  \<open>s[0]\<close> of a JavaScript string is its first character, or \<open>undefined\<close> for the empty
  string, which a template literal prints as \<open>"undefined"\<close>.
\<close>

definition js_first_char_text :: "string \<Rightarrow> string" where
  "js_first_char_text s = (case s of [] \<Rightarrow> ''undefined'' | c # _ \<Rightarrow> [c])"

definition avatar_initials :: "user \<Rightarrow> string" where
  "avatar_initials u = js_first_char_text (firstName u) @ js_first_char_text (lastName u)"

datatype screen =
    LoadingScreen
  | TasksScreen string string
  | LoginScreen
  | RegisterScreen

text \<open>What \<open>App\<close> returns: the task page carries the avatar's initials and name.\<close>

definition render :: "app_state \<Rightarrow> screen" where
  "render st =
     (if isLoading st then LoadingScreen
      else case (app_isAuthenticated st, app_user st) of
             (True, Some u) \<Rightarrow> TasksScreen (avatar_initials u) (firstName u)
           | _ \<Rightarrow> if showRegister st then RegisterScreen else LoginScreen)"

text \<open>
  \<open>components/ui/avatar.tsx\<close>: the widget shows two texts, the initials in the round
  badge and then the name beside it; its class names and the spread props only style
  the element.
\<close>

definition Avatar :: "string \<Rightarrow> string \<Rightarrow> string list" where
  "Avatar initials name = [initials, name]"

text \<open>
  The texts \<open>App\<close> itself puts on each screen, in document order (the forms and the
  task list add their own): the loading line, the avatar and the Logout button, or the
  link that switches between the two forms.
\<close>

definition screen_texts :: "screen \<Rightarrow> string list" where
  "screen_texts sc =
     (case sc of
        LoadingScreen \<Rightarrow> [''Loading...'']
      | TasksScreen initials name \<Rightarrow> Avatar initials name @ [''Logout'']
      | LoginScreen \<Rightarrow> [''Don't have an account? Register'']
      | RegisterScreen \<Rightarrow> [''Already have an account? Login''])"

subsection \<open>Effects and callbacks\<close>

text \<open>\<open>setUser(currentUser)\<close> only when a user came back: otherwise the old value stays.\<close>

definition keep_user :: "user option \<Rightarrow> app_state \<Rightarrow> app_state" where
  "keep_user cu st = (case cu of Some u \<Rightarrow> st\<lparr>app_user := Some u\<rparr> | None \<Rightarrow> st)"

definition checkAuth :: "app_state \<Rightarrow> session_state \<Rightarrow> timestamp \<Rightarrow> app_state" where
  "checkAuth st ss now =
     (let currentUser = getCurrentUser ss now
      in (keep_user currentUser (st\<lparr>app_isAuthenticated := (currentUser \<noteq> None)\<rparr>))\<lparr>isLoading := False\<rparr>)"

definition handleLogin :: "app_state \<Rightarrow> session_state \<Rightarrow> timestamp \<Rightarrow> app_state" where
  "handleLogin st ss now = keep_user (getCurrentUser ss now) (st\<lparr>app_isAuthenticated := True\<rparr>)"

definition handleLogout :: "app_state \<Rightarrow> session_state \<Rightarrow> app_state \<times> session_state" where
  "handleLogout st ss = (st\<lparr>app_isAuthenticated := False, app_user := None\<rparr>, logout ss)"

text \<open>
  The forms: \<open>Login\<close> calls \<open>login\<close> and then \<open>onLogin\<close>, reading the current user
  at the clock of the cookie write; \<open>Register\<close> calls \<open>register\<close> and then
  \<open>onRegister\<close>, which \<open>App\<close> binds to \<open>handleLogin\<close> as well. A failed call only
  leaves the session store as the call left it.
\<close>

definition login_form :: "app_state \<Rightarrow> session_state \<Rightarrow> string \<Rightarrow> string \<Rightarrow> timestamp \<Rightarrow>
    timestamp \<Rightarrow> bool \<Rightarrow> app_state \<times> session_state" where
  "login_form st ss e pw now_token now_cookie production =
     (case login ss e pw now_token now_cookie production of
        (Some _, ss') \<Rightarrow> (handleLogin st ss' now_cookie, ss')
      | (None, ss') \<Rightarrow> (st, ss'))"

definition register_form :: "app_state \<Rightarrow> session_state \<Rightarrow> register_data \<Rightarrow> uuid \<Rightarrow> timestamp \<Rightarrow>
    app_state \<times> session_state" where
  "register_form st ss d uid now =
     (case register ss d uid of
        (True, ss') \<Rightarrow> (handleLogin st ss' now, ss')
      | (False, ss') \<Rightarrow> (st, ss'))"

subsection \<open>The shell as a state machine\<close>

text \<open>
  The events of the shell. Each is possible only while the element that raises it is
  rendered; the mount effect runs once, while the loading text is shown.
\<close>

datatype app_event =
    Mount timestamp
  | LoginSubmit string string timestamp timestamp bool
  | RegisterSubmit register_data uuid timestamp
  | LogoutClick
  | SetShowRegister bool
  | Reload

fun app_step :: "app_state \<times> session_state \<Rightarrow> app_event \<Rightarrow> app_state \<times> session_state" where
  "app_step (st, ss) (Mount now) = (if isLoading st then (checkAuth st ss now, ss) else (st, ss))"
| "app_step (st, ss) (LoginSubmit e pw now_token now_cookie production) =
     (if render st = LoginScreen then login_form st ss e pw now_token now_cookie production else (st, ss))"
| "app_step (st, ss) (RegisterSubmit d uid now) =
     (if render st = RegisterScreen then register_form st ss d uid now else (st, ss))"
| "app_step (st, ss) LogoutClick =
     (case render st of TasksScreen _ _ \<Rightarrow> handleLogout st ss | _ \<Rightarrow> (st, ss))"
| "app_step (st, ss) (SetShowRegister b) =
     (if render st = LoginScreen \<or> render st = RegisterScreen then (st\<lparr>showRegister := b\<rparr>, ss) else (st, ss))"
| "app_step (st, ss) Reload = (init_app, ss\<lparr>users := []\<rparr>)"

definition app_run :: "app_state \<times> session_state \<Rightarrow> app_event list \<Rightarrow> app_state \<times> session_state" where
  "app_run s evs = foldl app_step s evs"

inductive app_reachable :: "app_state \<times> session_state \<Rightarrow> bool" where
  init: "app_reachable (init_app, init_session)"
| step: "app_reachable s \<Longrightarrow> app_reachable (app_step s ev)"

text \<open>
  What the shell keeps true: while loading nobody is shown, and a shown user is the
  first registered one, with the flag set.
\<close>

definition app_inv :: "app_state \<times> session_state \<Rightarrow> bool" where
  "app_inv s \<longleftrightarrow>
     (isLoading (fst s) \<longrightarrow> app_user (fst s) = None) \<and>
     (case app_user (fst s) of
        None \<Rightarrow> True
      | Some u \<Rightarrow> app_isAuthenticated (fst s) \<and> users (snd s) \<noteq> [] \<and>
                  u = public_user (hd (users (snd s))))"

subsection \<open>Lemmas\<close>

lemma getCurrentUser_eq:
  "getCurrentUser ss now =
     (if isAuthenticated ss now \<and> users ss \<noteq> [] then Some (public_user (hd (users ss))) else None)"
  by (auto simp: getCurrentUser_def isAuthenticated_def split: option.splits list.splits)

lemma getCurrentUser_users [simp]:
  "users ss = [] \<Longrightarrow> getCurrentUser ss now = None"
  by (simp add: getCurrentUser_eq)

lemma getCurrentUser_no_cookie:
  "cookies ss COOKIE_NAME = None \<Longrightarrow> getCurrentUser ss now = None"
  by (simp add: getCurrentUser_def getAuthToken_def cookies_get_def)

lemma login_found:
  "find (\<lambda>u. email u = e \<and> password u = pw) (users ss) = Some u \<Longrightarrow>
   login ss e pw nt nc pm = (Some (public_user u), setAuthToken ss (''demo_token_'' @ int_to_string nt) pm nc)"
  by (simp add: login_def)

lemma setAuthToken_users [simp]: "users (setAuthToken ss tk pm nc) = users ss"
  by (simp add: setAuthToken_def)

lemma getCurrentUser_after_login:
  "getCurrentUser (setAuthToken ss tk pm nc) nc =
     (if tk = [] \<or> users ss = [] then None else Some (public_user (hd (users ss))))"
  by (simp add: getCurrentUser_eq isAuthenticated_set ms_per_day_def)

lemma register_hd:
  "users ss \<noteq> [] \<Longrightarrow> hd (users (snd (register ss d uid))) = hd (users ss)"
  by (simp add: register_users)

lemma register_ne:
  "users ss \<noteq> [] \<Longrightarrow> users (snd (register ss d uid)) \<noteq> []"
  by (simp add: register_users)

lemma app_invI:
  "\<lbrakk>isLoading st \<longrightarrow> app_user st = None;
    \<And>u. app_user st = Some u \<Longrightarrow> app_isAuthenticated st \<and> users ss \<noteq> [] \<and> u = public_user (hd (users ss))\<rbrakk>
   \<Longrightarrow> app_inv (st, ss)"
  by (auto simp: app_inv_def split: option.splits)

lemma keep_user_fields [simp]:
  "app_isAuthenticated (keep_user cu st) = app_isAuthenticated st"
  "isLoading (keep_user cu st) = isLoading st"
  "showRegister (keep_user cu st) = showRegister st"
  "app_user (keep_user cu st) = (case cu of Some u \<Rightarrow> Some u | None \<Rightarrow> app_user st)"
  by (simp_all add: keep_user_def split: option.splits)


lemma app_invD:
  "app_inv (st, ss) \<Longrightarrow> app_user st = Some u \<Longrightarrow>
   app_isAuthenticated st \<and> users ss \<noteq> [] \<and> u = public_user (hd (users ss))"
  by (simp add: app_inv_def)

lemma inv_checkAuth:
  assumes "app_inv (st, ss)" and "isLoading st"
  shows "app_inv (checkAuth st ss now, ss)"
proof -
  have "app_user st = None" using assms by (simp add: app_inv_def)
  then show ?thesis
    by (intro app_invI) (simp_all add: checkAuth_def Let_def getCurrentUser_eq split: if_splits)
qed


lemma render_form_not_loading:
  "render st = LoginScreen \<or> render st = RegisterScreen \<Longrightarrow> \<not> isLoading st"
  by (auto simp: render_def)

lemma inv_handleLogin:
  assumes "app_inv (st, ss)" and "\<not> isLoading st"
  shows "app_inv (handleLogin st ss now, ss)"
proof (intro app_invI)
  show "isLoading (handleLogin st ss now) \<longrightarrow> app_user (handleLogin st ss now) = None"
    using assms(2) by (simp add: handleLogin_def)
next
  fix u assume "app_user (handleLogin st ss now) = Some u"
  then show "app_isAuthenticated (handleLogin st ss now) \<and> users ss \<noteq> [] \<and> u = public_user (hd (users ss))"
    using app_invD [OF assms(1), of u] by (simp add: handleLogin_def getCurrentUser_eq split: if_splits)
qed

lemma app_inv_users:
  "app_inv (st, ss) \<Longrightarrow> users ss' = users ss \<Longrightarrow> app_inv (st, ss')"
  by (simp add: app_inv_def split: option.splits)

lemma inv_login_form:
  assumes "app_inv (st, ss)" and l: "\<not> isLoading st"
  shows "app_inv (login_form st ss e pw nt nc pm)"
proof (cases "login ss e pw nt nc pm")
  case (Pair r ss')
  have "users ss' = users ss" using login_users [of ss e pw nt nc pm] Pair by simp
  then have i: "app_inv (st, ss')" using app_inv_users [OF assms(1)] by simp
  show ?thesis using Pair inv_handleLogin [OF i l] i by (simp add: login_form_def split: option.splits)
qed

lemma inv_register:
  "app_inv (st, ss) \<Longrightarrow> app_inv (st, snd (register ss d uid))"
  by (auto simp: app_inv_def register_hd register_ne split: option.splits)

lemma inv_register_form:
  assumes "app_inv (st, ss)" and l: "\<not> isLoading st"
  shows "app_inv (register_form st ss d uid now)"
proof (cases "register ss d uid")
  case (Pair b ss')
  have i: "app_inv (st, ss')" using inv_register [OF assms(1), of d uid] Pair by simp
  show ?thesis using Pair inv_handleLogin [OF i l] i by (simp add: register_form_def split: bool.splits)
qed

lemma app_step_inv:
  assumes "app_inv s"
  shows "app_inv (app_step s ev)"
proof -
  obtain st ss where s: "s = (st, ss)" by (cases s)
  show ?thesis
  proof (cases ev)
    case Mount with assms s show ?thesis by (simp add: inv_checkAuth)
  next
    case LoginSubmit with assms s show ?thesis by (simp add: inv_login_form render_form_not_loading)
  next
    case RegisterSubmit with assms s show ?thesis by (simp add: inv_register_form render_form_not_loading)
  next
    case LogoutClick with assms s show ?thesis
      by (auto simp: handleLogout_def app_inv_def split: screen.splits)
  next
    case SetShowRegister with assms s show ?thesis by (simp add: app_inv_def split: option.splits)
  next
    case Reload with assms s show ?thesis by (simp add: app_inv_def init_app_def)
  qed
qed


lemma public_user_fields [simp]:
  "firstName (public_user u) = firstName u" "lastName (public_user u) = lastName u"
  "email (public_user u) = email u" "user_id (public_user u) = user_id u"
  by (simp_all add: public_user_def user.defs)

lemma app_reachable_app_inv:
  "app_reachable s \<Longrightarrow> app_inv s"
proof (induction rule: app_reachable.induct)
  case init
  show ?case by (simp add: app_inv_def init_app_def)
next
  case (step s ev)
  from step.IH show ?case by (rule app_step_inv)
qed

lemma render_tasks:
  "render st = TasksScreen i n \<longleftrightarrow>
     \<not> isLoading st \<and> app_isAuthenticated st \<and>
     (\<exists>u. app_user st = Some u \<and> i = avatar_initials u \<and> n = firstName u)"
  by (auto simp: render_def split: option.splits bool.splits)

lemma render_no_user:
  "\<not> isLoading st \<Longrightarrow> app_user st = None \<Longrightarrow>
   render st = (if showRegister st then RegisterScreen else LoginScreen)"
  by (simp add: render_def split: bool.splits)

lemma isAuthenticated_register [simp]:
  "isAuthenticated (snd (register ss d uid)) now = isAuthenticated ss now"
  by (simp add: isAuthenticated_def getAuthToken_def)

lemma app_reachable_run:
  "app_reachable s \<Longrightarrow> app_reachable (app_run s evs)"
proof (induction evs arbitrary: s)
  case Nil
  then show ?case by (simp add: app_run_def)
next
  case (Cons ev evs)
  have "app_reachable (app_step s ev)" using Cons.prems by (rule app_reachable.step)
  then show ?case using Cons.IH by (simp add: app_run_def)
qed

lemma login_submit_step:
  assumes "render st = LoginScreen" and "find (\<lambda>u. email u = e \<and> password u = pw) (users ss) = Some u"
  shows "app_step (st, ss) (LoginSubmit e pw nt nc pm) =
      (st\<lparr>app_isAuthenticated := True, app_user := Some (public_user (hd (users ss)))\<rparr>,
       setAuthToken ss (''demo_token_'' @ int_to_string nt) pm nc)"
proof -
  have ne: "users ss \<noteq> []" using assms(2) by auto
  then show ?thesis
    using assms by (simp add: login_form_def login_found handleLogin_def getCurrentUser_after_login keep_user_def)
qed

subsection \<open>Properties of the shell\<close>

text \<open>
  C21. In every state the shell reaches, the task page's avatar shows the first
  registered account: its initials and first name come from the head of the registry,
  whoever logged in (the consequence in the page of \<open>getCurrentUser\<close> returning
  \<open>users[0]\<close>).
\<close>

theorem avatar_first_user:
  assumes "app_reachable s" and "render (fst s) = TasksScreen i n"
  shows "users (snd s) \<noteq> [] \<and> i = avatar_initials (public_user (hd (users (snd s)))) \<and>
         n = firstName (hd (users (snd s)))"
proof -
  obtain st ss where s: "s = (st, ss)" by (cases s)
  from assms(2) s obtain u where u: "app_user st = Some u" "i = avatar_initials u" "n = firstName u"
    by (auto simp: render_tasks)
  have "app_inv (st, ss)" using app_reachable_app_inv [OF assms(1)] s by simp
  from app_invD [OF this u(1)] u s show ?thesis by simp
qed

text \<open>
  C22. Submitting the login form with credentials that match some account opens the
  task page, with a live session cookie, and the avatar of the first registered
  account.
\<close>

theorem login_shows_first_user:
  assumes "render st = LoginScreen" and "find (\<lambda>u. email u = e \<and> password u = pw) (users ss) = Some u"
  shows "render (fst (app_step (st, ss) (LoginSubmit e pw nt nc pm))) =
           TasksScreen (avatar_initials (public_user (hd (users ss)))) (firstName (hd (users ss))) \<and>
         isAuthenticated (snd (app_step (st, ss) (LoginSubmit e pw nt nc pm))) nc"
proof -
  have ne: "users ss \<noteq> []" using assms(2) by auto
  have l: "\<not> isLoading st" using assms(1) by (simp add: render_form_not_loading)
  show ?thesis
    unfolding login_submit_step [OF assms] using l ne
    by (simp add: render_def isAuthenticated_set ms_per_day_def)
qed


text \<open>
  C23. A page reload followed by the mount effect always shows the login form, even when
  the session cookie is still live: the reloaded \<open>UserService\<close> has an empty registry,
  so \<open>getCurrentUser\<close> finds nobody. The cookie itself, and so \<open>isAuthenticated\<close>,
  survive the reload unchanged.
\<close>

theorem reload_forgets_session:
  "render (fst (app_run s [Reload, Mount now])) = LoginScreen \<and>
   isAuthenticated (snd (app_run s [Reload, Mount now])) now = isAuthenticated (snd s) now"
proof -
  obtain st ss where s: "s = (st, ss)" by (cases s)
  show ?thesis
    using s by (simp add: app_run_def checkAuth_def init_app_def render_def isAuthenticated_def
                          getAuthToken_def keep_user_def)
qed

text \<open>
  C24. The Logout button leaves the task page for the form chosen by \<open>showRegister\<close>,
  and no session is left at any time afterwards.
\<close>

theorem logout_click:
  assumes "render st = TasksScreen i n"
  shows "render (fst (app_step (st, ss) LogoutClick)) =
           (if showRegister st then RegisterScreen else LoginScreen) \<and>
         \<not> isAuthenticated (snd (app_step (st, ss) LogoutClick)) t"
proof -
  have step: "app_step (st, ss) LogoutClick = handleLogout st ss" using assms by simp
  have "\<not> isLoading st" using assms by (simp add: render_tasks)
  then show ?thesis unfolding step by (simp add: handleLogout_def render_no_user)
qed


text \<open>
  C25. A successful registration without a live session calls \<open>handleLogin\<close>, which
  sets the shell's authentication flag, but \<open>register\<close> writes no cookie, so no user is
  found and the register form stays on screen with the flag set.
\<close>

theorem register_keeps_form:
  assumes "app_reachable (st, ss)" and "render st = RegisterScreen"
    and "\<not> isAuthenticated ss now" and "\<not> list_ex (\<lambda>u. email u = reg_email d) (users ss)"
  shows "app_step (st, ss) (RegisterSubmit d uid now) = (st\<lparr>app_isAuthenticated := True\<rparr>, snd (register ss d uid)) \<and>
         render (st\<lparr>app_isAuthenticated := True\<rparr>) = RegisterScreen"
proof -
  have l: "\<not> isLoading st" using assms(2) by (simp add: render_form_not_loading)
  have nu: "app_user st = None"
  proof (cases "app_user st")
    case (Some u)
    then have "app_isAuthenticated st" using app_invD [OF app_reachable_app_inv [OF assms(1)]] by blast
    then have "render st = TasksScreen (avatar_initials u) (firstName u)" using l Some by (simp add: render_tasks)
    with assms(2) show ?thesis by simp
  qed
  obtain ss' where reg: "register ss d uid = (True, ss')"
    using assms(4) by (simp add: register_def Let_def)
  have cu: "getCurrentUser ss' now = None"
    using assms(3) isAuthenticated_register [of ss d uid now] reg by (simp add: getCurrentUser_eq)
  have sr: "showRegister st" using assms(2) l nu by (simp add: render_no_user split: if_splits)
  have step: "app_step (st, ss) (RegisterSubmit d uid now) = (st\<lparr>app_isAuthenticated := True\<rparr>, ss')"
    using assms(2) reg cu by (simp add: register_form_def handleLogin_def keep_user_def)
  show ?thesis
    using step reg l nu sr by (simp add: render_def)
qed


theorem avatar_first_user_witness:
  "let s = app_run (init_app, init_session)
       [Mount 0, SetShowRegister True, RegisterSubmit \<lparr>reg_firstName = ''Ann'', reg_lastName = ''Smith'', reg_email = ''ann@x'', reg_password = ''p1''\<rparr> ''u1'' 1,
        RegisterSubmit \<lparr>reg_firstName = ''Bob'', reg_lastName = ''Jones'', reg_email = ''bob@x'', reg_password = ''p2''\<rparr> ''u2'' 2, SetShowRegister False, LoginSubmit ''bob@x'' ''p2'' 3 3 False]
   in app_reachable s \<and> render (fst s) = TasksScreen ''AS'' ''Ann'' \<and>
      users (snd s) \<noteq> [] \<and> ''AS'' = avatar_initials (public_user (hd (users (snd s)))) \<and>
      ''Ann'' = firstName (hd (users (snd s)))"
proof -
  let ?s = "app_run (init_app, init_session)
       [Mount 0, SetShowRegister True, RegisterSubmit \<lparr>reg_firstName = ''Ann'', reg_lastName = ''Smith'', reg_email = ''ann@x'', reg_password = ''p1''\<rparr> ''u1'' 1,
        RegisterSubmit \<lparr>reg_firstName = ''Bob'', reg_lastName = ''Jones'', reg_email = ''bob@x'', reg_password = ''p2''\<rparr> ''u2'' 2, SetShowRegister False, LoginSubmit ''bob@x'' ''p2'' 3 3 False]"
  have r: "app_reachable ?s" by (rule app_reachable_run [OF app_reachable.init])
  have t: "render (fst ?s) = TasksScreen ''AS'' ''Ann''"
    by (simp add: app_run_def init_app_def init_session_def checkAuth_def render_def register_form_def register_def login_form_def login_def handleLogin_def getCurrentUser_after_login keep_user_def avatar_initials_def js_first_char_text_def getCurrentUser_no_cookie)
  show ?thesis using avatar_first_user [OF r t] r t by (simp add: Let_def)
qed

theorem login_shows_first_user_witness:
  "render \<lparr>app_isAuthenticated = False, isLoading = False, showRegister = False, app_user = None\<rparr> = LoginScreen \<and>
   find (\<lambda>u. email u = ''bob@x'' \<and> password u = ''p2'') (users \<lparr>users = [\<lparr>user_id = ''u1'', firstName = ''Ann'', lastName = ''Smith'', email = ''ann@x'', password = ''p1''\<rparr>, \<lparr>user_id = ''u2'', firstName = ''Bob'', lastName = ''Jones'', email = ''bob@x'', password = ''p2''\<rparr>], cookies = Map.empty\<rparr>) = Some \<lparr>user_id = ''u2'', firstName = ''Bob'', lastName = ''Jones'', email = ''bob@x'', password = ''p2''\<rparr> \<and>
   render (fst (app_step (\<lparr>app_isAuthenticated = False, isLoading = False, showRegister = False, app_user = None\<rparr>,
                           \<lparr>users = [\<lparr>user_id = ''u1'', firstName = ''Ann'', lastName = ''Smith'', email = ''ann@x'', password = ''p1''\<rparr>, \<lparr>user_id = ''u2'', firstName = ''Bob'', lastName = ''Jones'', email = ''bob@x'', password = ''p2''\<rparr>], cookies = Map.empty\<rparr>) (LoginSubmit ''bob@x'' ''p2'' 3 3 False)))
     = TasksScreen ''AS'' ''Ann''"
proof -
  let ?st = "\<lparr>app_isAuthenticated = False, isLoading = False, showRegister = False, app_user = None\<rparr>"
  let ?ss = "\<lparr>users = [\<lparr>user_id = ''u1'', firstName = ''Ann'', lastName = ''Smith'', email = ''ann@x'', password = ''p1''\<rparr>, \<lparr>user_id = ''u2'', firstName = ''Bob'', lastName = ''Jones'', email = ''bob@x'', password = ''p2''\<rparr>], cookies = Map.empty\<rparr>"
  have r: "render ?st = LoginScreen" by (simp add: render_def)
  have f: "find (\<lambda>u. email u = ''bob@x'' \<and> password u = ''p2'') (users ?ss) = Some \<lparr>user_id = ''u2'', firstName = ''Bob'', lastName = ''Jones'', email = ''bob@x'', password = ''p2''\<rparr>" by simp
  show ?thesis using login_shows_first_user [OF r f, of 3 3 False] r f
    by (simp add: avatar_initials_def js_first_char_text_def)
qed

theorem logout_click_witness:
  "render \<lparr>app_isAuthenticated = True, isLoading = False, showRegister = False,
           app_user = Some \<lparr>user_id = ''u1'', firstName = ''Ann'', lastName = ''Smith'', email = ''ann@x''\<rparr>\<rparr>
     = TasksScreen ''AS'' ''Ann'' \<and>
   render (fst (app_step (\<lparr>app_isAuthenticated = True, isLoading = False, showRegister = False,
           app_user = Some \<lparr>user_id = ''u1'', firstName = ''Ann'', lastName = ''Smith'', email = ''ann@x''\<rparr>\<rparr>,
           \<lparr>users = [\<lparr>user_id = ''u1'', firstName = ''Ann'', lastName = ''Smith'', email = ''ann@x'', password = ''p1''\<rparr>], cookies = Map.empty\<rparr>) LogoutClick)) = LoginScreen"
proof -
  let ?st = "\<lparr>app_isAuthenticated = True, isLoading = False, showRegister = False,
           app_user = Some \<lparr>user_id = ''u1'', firstName = ''Ann'', lastName = ''Smith'', email = ''ann@x''\<rparr>\<rparr>"
  have r: "render ?st = TasksScreen ''AS'' ''Ann''"
    by (simp add: render_def avatar_initials_def js_first_char_text_def)
  show ?thesis using logout_click [OF r, of "\<lparr>users = [\<lparr>user_id = ''u1'', firstName = ''Ann'', lastName = ''Smith'', email = ''ann@x'', password = ''p1''\<rparr>], cookies = Map.empty\<rparr>" 0] r by simp
qed

theorem register_keeps_form_witness:
  "let s = app_run (init_app, init_session) [Mount 0, SetShowRegister True]
   in app_reachable s \<and> render (fst s) = RegisterScreen \<and> \<not> isAuthenticated (snd s) 1 \<and>
      \<not> list_ex (\<lambda>u. email u = ''ann@x'') (users (snd s)) \<and>
      render (fst (app_step s (RegisterSubmit \<lparr>reg_firstName = ''Ann'', reg_lastName = ''Smith'', reg_email = ''ann@x'', reg_password = ''p1''\<rparr> ''u1'' 1))) = RegisterScreen \<and>
      app_isAuthenticated (fst (app_step s (RegisterSubmit \<lparr>reg_firstName = ''Ann'', reg_lastName = ''Smith'', reg_email = ''ann@x'', reg_password = ''p1''\<rparr> ''u1'' 1)))"
proof -
  let ?s = "app_run (init_app, init_session) [Mount 0, SetShowRegister True]"
  have e: "?s = (\<lparr>app_isAuthenticated = False, isLoading = False, showRegister = True, app_user = None\<rparr>, init_session)"
    by (simp add: app_run_def init_app_def init_session_def checkAuth_def render_def keep_user_def getCurrentUser_no_cookie)
  have r: "app_reachable (fst ?s, snd ?s)" using app_reachable_run [OF app_reachable.init] by simp
  have t: "render (fst ?s) = RegisterScreen" unfolding e by (simp add: render_def)
  have a: "\<not> isAuthenticated (snd ?s) 1" unfolding e by (simp add: init_session_def isAuthenticated_def getAuthToken_def cookies_get_def)
  have n: "\<not> list_ex (\<lambda>u. email u = reg_email \<lparr>reg_firstName = ''Ann'', reg_lastName = ''Smith'', reg_email = ''ann@x'', reg_password = ''p1''\<rparr>) (users (snd ?s))" unfolding e by (simp add: init_session_def)
  show ?thesis using register_keeps_form [OF r t a n, of "''u1''"] r t a n by (simp add: Let_def)
qed

end
