(* ===== verification/JsonFuel.thy ===== *)
theory JsonFuel
  imports Json
begin

text \<open>
  Termination of the JSON parser of \<open>Json\<close>. \<open>parse_value\<close> recurses on a fuel
  argument because its recursion into arrays and objects is not structural in the
  text. This theory shows that every successful step consumes input
  (\<open>parse_shorter\<close>), that a successful parse keeps its result under any fuel at
  least the number of characters it consumed (\<open>parse_fuel_adequate\<close>), and so that
  the fuel \<open>Suc (length s)\<close> chosen by \<open>JSON_parse\<close> decides every text.
\<close>

lemma skip_ws_length: "length (skip_ws s) \<le> length s"
  by (simp add: skip_ws_def length_dropWhile_le)

lemma skip_ws_Cons_shorter: "skip_ws s = c # r \<Longrightarrow> length r < length s"
  using skip_ws_length [of s] by simp

lemma parse_string_shorter: "parse_string s = Some (x, rest) \<Longrightarrow> length rest < length s"
proof (induction s arbitrary: x rule: parse_string.induct)
  case 1
  then show ?case by simp
next
  case (2 c r)
  show ?case
  proof (cases "c = dquote \<or> c = backslash")
    case False
    with "2.prems" obtain x' where x': "parse_string r = Some (x', rest)" and nc: "\<not> of_char c < (32::nat)"
      by (auto split: if_splits)
    with "2.IH"(3) [of x'] False show ?thesis by simp
  next
    case True
    then show ?thesis
    proof
      assume "c = dquote" with "2.prems" show ?thesis by simp
    next
      assume b: "c = backslash"
      with "2.prems" obtain e r' where r: "r = e # r'" by (cases r) auto
      show ?thesis
      proof (cases "e = CHR ''u''")
        case True
        with "2.prems" b r obtain x' h where h: "parse_hex4 (take 4 r') = Some h"
            and x': "parse_string (drop 4 r') = Some (x', rest)"
          by (auto split: option.splits)
        have "c \<noteq> dquote" using b by simp
        from "2.IH"(1) [OF this b r True h x'] r show ?thesis by simp
      next
        case False
        with "2.prems" b r obtain x' h where h: "unescape e = Some h"
            and x': "parse_string r' = Some (x', rest)"
          by (auto split: option.splits)
        have "c \<noteq> dquote" using b by simp
        from "2.IH"(2) [OF this b r False h x'] r show ?thesis by simp
      qed
    qed
  qed
qed


lemma parse_nat_digits_shorter: "parse_nat_digits s = Some (k, rest) \<Longrightarrow> length rest < length s"
proof -
  assume h: "parse_nat_digits s = Some (k, rest)"
  then have ne: "takeWhile is_dec_digit s \<noteq> []" and r: "rest = dropWhile is_dec_digit s"
    by (auto simp: parse_nat_digits_def Let_def split: if_splits)
  have "length s = length (takeWhile is_dec_digit s) + length (dropWhile is_dec_digit s)"
    by (metis length_append takeWhile_dropWhile_id)
  with ne r show ?thesis by simp
qed

lemma parse_number_shorter: "parse_number s = Some (i, rest) \<Longrightarrow> length rest < length s"
  by (cases s) (auto simp: parse_number_def split: if_splits dest!: parse_nat_digits_shorter)

text \<open>
  One step of \<open>parse_value\<close>, by the first significant character. Only arrays and
  objects recurse; every other value is read without fuel.
\<close>

lemma parse_value_flat:
  "skip_ws s = c # r \<Longrightarrow> c \<noteq> CHR ''['' \<Longrightarrow> c \<noteq> CHR ''{'' \<Longrightarrow>
   parse_value (Suc n) s = parse_value (Suc m) s"
  by (simp add: parse_value.simps(2))

lemma parse_value_open_arr:
  "skip_ws s = CHR ''['' # r \<Longrightarrow>
   parse_value (Suc n) s =
     (case skip_ws r of
        d # r' \<Rightarrow> if d = CHR '']'' then Some (JArr [], r')
                  else map_option (\<lambda>(vs, rest). (JArr vs, rest)) (parse_elems n r)
      | [] \<Rightarrow> None)"
  by (simp add: parse_value.simps(2))

lemma parse_value_open_obj:
  "skip_ws s = CHR ''{'' # r \<Longrightarrow>
   parse_value (Suc n) s =
     (case skip_ws r of
        d # r' \<Rightarrow> if d = CHR ''}'' then Some (JObj [], r')
                  else map_option (\<lambda>(kvs, rest). (JObj kvs, rest)) (parse_members n r)
      | [] \<Rightarrow> None)"
  by (simp add: parse_value.simps(2))


lemma parse_value_flat_shorter:
  "skip_ws s = c # r \<Longrightarrow> c \<noteq> CHR ''['' \<Longrightarrow> c \<noteq> CHR ''{'' \<Longrightarrow>
   parse_value (Suc n) s = Some (v, rest) \<Longrightarrow> length rest \<le> length r"
  by (auto simp: parse_value.simps(2) split: if_splits dest!: parse_string_shorter parse_number_shorter)

lemma parse_shorter:
  "(\<forall>s v rest. parse_value n s = Some (v, rest) \<longrightarrow> length rest < length s) \<and>
   (\<forall>s vs rest. parse_elems n s = Some (vs, rest) \<longrightarrow> length rest < length s) \<and>
   (\<forall>s kvs rest. parse_members n s = Some (kvs, rest) \<longrightarrow> length rest < length s)"
proof (induction n)
  case 0
  then show ?case by simp
next
  case (Suc n)
  have IHv: "\<And>s v rest. parse_value n s = Some (v, rest) \<Longrightarrow> length rest < length s"
    and IHe: "\<And>s vs rest. parse_elems n s = Some (vs, rest) \<Longrightarrow> length rest < length s"
    and IHm: "\<And>s kvs rest. parse_members n s = Some (kvs, rest) \<Longrightarrow> length rest < length s"
    using Suc.IH by blast+
  have V: "length rest < length s" if h: "parse_value (Suc n) s = Some (v, rest)" for s v rest
  proof (cases "skip_ws s")
    case Nil
    with h show ?thesis by (simp add: parse_value.simps(2))
  next
    case (Cons c r)
    then have lr: "length r < length s" by (rule skip_ws_Cons_shorter)
    consider "c = CHR ''[''" | "c = CHR ''{''" | "c \<noteq> CHR ''[''" "c \<noteq> CHR ''{''" by blast
    then show ?thesis
    proof cases
      case 1
      with h Cons lr show ?thesis
        by (auto simp: parse_value_open_arr split: list.splits if_splits dest!: skip_ws_Cons_shorter IHe)
    next
      case 2
      with h Cons lr show ?thesis
        by (auto simp: parse_value_open_obj split: list.splits if_splits dest!: skip_ws_Cons_shorter IHm)
    next
      case 3
      with h Cons lr parse_value_flat_shorter [OF Cons] show ?thesis by fastforce
    qed
  qed
  have E: "length rest < length s" if h: "parse_elems (Suc n) s = Some (vs, rest)" for s vs rest
    using h by (auto split: option.splits list.splits if_splits dest!: skip_ws_Cons_shorter IHv IHe)
  have M: "length rest < length s" if h: "parse_members (Suc n) s = Some (kvs, rest)" for s kvs rest
    using h
    by (auto simp: parse_members.simps(2) split: option.splits list.splits if_splits
             dest!: skip_ws_Cons_shorter parse_string_shorter IHv IHm)
  show ?case using V E M by blast
qed


lemmas parse_value_shorter = parse_shorter [THEN conjunct1, rule_format]
lemmas parse_elems_shorter = parse_shorter [THEN conjunct2, THEN conjunct1, rule_format]
lemmas parse_members_shorter = parse_shorter [THEN conjunct2, THEN conjunct2, rule_format]

text \<open>
  Fuel adequacy: a parse that succeeds consuming \<open>k\<close> characters gives the same result
  with any fuel of at least \<open>k\<close>. Every nesting level and every further array element
  or object member reads at least one character for each unit of fuel it spends.
\<close>

lemma parse_value_fuel_step:
  assumes IHe: "\<And>s vs rest m. parse_elems n s = Some (vs, rest) \<Longrightarrow> length s \<le> m + length rest \<Longrightarrow>
      parse_elems m s = Some (vs, rest)"
    and IHm: "\<And>s kvs rest m. parse_members n s = Some (kvs, rest) \<Longrightarrow> length s \<le> m + length rest \<Longrightarrow>
      parse_members m s = Some (kvs, rest)"
    and h: "parse_value (Suc n) s = Some (v, rest)" and b: "length s \<le> m + length rest"
  shows "parse_value m s = Some (v, rest)"
proof -
  have "length rest < length s" by (rule parse_value_shorter [OF h])
  with b obtain m' where m: "m = Suc m'" by (cases m) auto
  obtain c r where sw: "skip_ws s = c # r"
    using h by (cases "skip_ws s") (auto simp: parse_value.simps(2))
  have lr: "length r < length s" by (rule skip_ws_Cons_shorter [OF sw])
  consider "c = CHR ''[''" | "c = CHR ''{''" | "c \<noteq> CHR ''[''" "c \<noteq> CHR ''{''" by blast
  then show ?thesis
  proof cases
    case 1
    obtain d r' where sw': "skip_ws r = d # r'"
      using h sw 1 by (cases "skip_ws r") (auto simp: parse_value_open_arr)
    show ?thesis
    proof (cases "d = CHR '']''")
      case True
      with h sw sw' 1 show ?thesis by (simp add: m parse_value_open_arr)
    next
      case False
      with h sw sw' 1 obtain vs where pe: "parse_elems n r = Some (vs, rest)" and v: "v = JArr vs"
        by (auto simp: parse_value_open_arr)
      have "parse_elems m' r = Some (vs, rest)" by (rule IHe [OF pe]) (use b lr m in simp)
      with sw sw' 1 False v show ?thesis by (simp add: m parse_value_open_arr)
    qed
  next
    case 2
    obtain d r' where sw': "skip_ws r = d # r'"
      using h sw 2 by (cases "skip_ws r") (auto simp: parse_value_open_obj)
    show ?thesis
    proof (cases "d = CHR ''}''")
      case True
      with h sw sw' 2 show ?thesis by (simp add: m parse_value_open_obj)
    next
      case False
      with h sw sw' 2 obtain kvs where pm: "parse_members n r = Some (kvs, rest)" and v: "v = JObj kvs"
        by (auto simp: parse_value_open_obj)
      have "parse_members m' r = Some (kvs, rest)" by (rule IHm [OF pm]) (use b lr m in simp)
      with sw sw' 2 False v show ?thesis by (simp add: m parse_value_open_obj)
    qed
  next
    case 3
    with h sw show ?thesis using parse_value_flat [OF sw 3, of m' n] by (simp add: m)
  qed
qed

lemma parse_elems_fuel_step:
  assumes IHv: "\<And>s v rest m. parse_value n s = Some (v, rest) \<Longrightarrow> length s \<le> m + length rest \<Longrightarrow>
      parse_value m s = Some (v, rest)"
    and IHe: "\<And>s vs rest m. parse_elems n s = Some (vs, rest) \<Longrightarrow> length s \<le> m + length rest \<Longrightarrow>
      parse_elems m s = Some (vs, rest)"
    and h: "parse_elems (Suc n) s = Some (vs, rest)" and b: "length s \<le> m + length rest"
  shows "parse_elems m s = Some (vs, rest)"
proof -
  have "length rest < length s" by (rule parse_elems_shorter [OF h])
  with b obtain m' where m: "m = Suc m'" by (cases m) auto
  obtain v r where pv: "parse_value n s = Some (v, r)"
    using h by (auto split: option.splits)
  obtain d r' where sw: "skip_ws r = d # r'"
    using h pv by (cases "skip_ws r") auto
  have lr': "length r' < length r" by (rule skip_ws_Cons_shorter [OF sw])
  show ?thesis
  proof (cases "d = CHR '','' ")
    case True
    with h pv sw obtain vs' where pe: "parse_elems n r' = Some (vs', rest)" and vs: "vs = v # vs'"
      by auto
    have "length rest < length r'" by (rule parse_elems_shorter [OF pe])
    then have "parse_value m' s = Some (v, r)" by (intro IHv [OF pv]) (use b lr' m in simp)
    moreover have "parse_elems m' r' = Some (vs', rest)"
      by (rule IHe [OF pe]) (use b lr' m parse_value_shorter [OF pv] in simp)
    ultimately show ?thesis using sw True vs by (simp add: m)
  next
    case False
    with h pv sw have d: "d = CHR '']''" and vs: "vs = [v]" and rest: "rest = r'"
      by (auto split: if_splits)
    have "parse_value m' s = Some (v, r)" by (intro IHv [OF pv]) (use b lr' m rest in simp)
    with sw d vs rest show ?thesis by (simp add: m)
  qed
qed

lemma parse_members_fuel_step:
  assumes IHv: "\<And>s v rest m. parse_value n s = Some (v, rest) \<Longrightarrow> length s \<le> m + length rest \<Longrightarrow>
      parse_value m s = Some (v, rest)"
    and IHm: "\<And>s kvs rest m. parse_members n s = Some (kvs, rest) \<Longrightarrow> length s \<le> m + length rest \<Longrightarrow>
      parse_members m s = Some (kvs, rest)"
    and h: "parse_members (Suc n) s = Some (kvs, rest)" and b: "length s \<le> m + length rest"
  shows "parse_members m s = Some (kvs, rest)"
proof -
  have "length rest < length s" by (rule parse_members_shorter [OF h])
  with b obtain m' where m: "m = Suc m'" by (cases m) auto
  obtain q r where sw: "skip_ws s = q # r" and q: "q = dquote"
    using h by (cases "skip_ws s") (auto simp: parse_members.simps(2) split: if_splits)
  obtain k r1 where ps: "parse_string r = Some (k, r1)"
    using h sw q by (auto simp: parse_members.simps(2) split: option.splits)
  obtain d r2 where sw1: "skip_ws r1 = d # r2" and d: "d = CHR '':''"
    using h sw q ps by (cases "skip_ws r1") (auto simp: parse_members.simps(2) split: if_splits)
  obtain v r3 where pv: "parse_value n r2 = Some (v, r3)"
    using h sw q ps sw1 d by (auto simp: parse_members.simps(2) split: option.splits)
  obtain e r4 where sw3: "skip_ws r3 = e # r4"
    using h sw q ps sw1 d pv by (cases "skip_ws r3") (auto simp: parse_members.simps(2))
  have l1: "length r < length s" by (rule skip_ws_Cons_shorter [OF sw])
  have l2: "length r1 < length r" by (rule parse_string_shorter [OF ps])
  have l3: "length r2 < length r1" by (rule skip_ws_Cons_shorter [OF sw1])
  have l4: "length r4 < length r3" by (rule skip_ws_Cons_shorter [OF sw3])
  have unf: "\<And>j. parse_members (Suc j) s =
      (case parse_value j r2 of
         None \<Rightarrow> None
       | Some (v, r3) \<Rightarrow>
           (case skip_ws r3 of
              e # r4 \<Rightarrow>
                if e = CHR '','' then map_option (\<lambda>(kvs, rest). ((k, v) # kvs, rest)) (parse_members j r4)
                else if e = CHR ''}'' then Some ([(k, v)], r4)
                else None
            | [] \<Rightarrow> None))"
    using sw q ps sw1 d by (simp add: parse_members.simps(2))
  show ?thesis
  proof (cases "e = CHR '','' ")
    case True
    with h pv sw3 obtain kvs' where pm: "parse_members n r4 = Some (kvs', rest)"
        and kvs: "kvs = (k, v) # kvs'"
      by (auto simp: unf)
    have "length rest < length r4" by (rule parse_members_shorter [OF pm])
    then have "parse_value m' r2 = Some (v, r3)" by (intro IHv [OF pv]) (use b l1 l2 l3 l4 m in simp)
    moreover have "parse_members m' r4 = Some (kvs', rest)"
      by (rule IHm [OF pm]) (use b l1 l2 l3 l4 m parse_value_shorter [OF pv] in simp)
    ultimately show ?thesis using sw3 True kvs by (simp add: m unf)
  next
    case False
    with h pv sw3 have e: "e = CHR ''}''" and kvs: "kvs = [(k, v)]" and rest: "rest = r4"
      by (auto simp: unf split: if_splits)
    have "parse_value m' r2 = Some (v, r3)" by (intro IHv [OF pv]) (use b l1 l2 l3 l4 m rest in simp)
    with sw3 e kvs rest show ?thesis by (simp add: m unf)
  qed
qed

lemma parse_fuel_adequate:
  "(\<forall>s v rest m. parse_value n s = Some (v, rest) \<longrightarrow> length s \<le> m + length rest \<longrightarrow>
      parse_value m s = Some (v, rest)) \<and>
   (\<forall>s vs rest m. parse_elems n s = Some (vs, rest) \<longrightarrow> length s \<le> m + length rest \<longrightarrow>
      parse_elems m s = Some (vs, rest)) \<and>
   (\<forall>s kvs rest m. parse_members n s = Some (kvs, rest) \<longrightarrow> length s \<le> m + length rest \<longrightarrow>
      parse_members m s = Some (kvs, rest))"
proof (induction n)
  case 0
  then show ?case by simp
next
  case (Suc n)
  then have IHv: "\<And>s v rest m. parse_value n s = Some (v, rest) \<Longrightarrow> length s \<le> m + length rest \<Longrightarrow>
      parse_value m s = Some (v, rest)"
    and IHe: "\<And>s vs rest m. parse_elems n s = Some (vs, rest) \<Longrightarrow> length s \<le> m + length rest \<Longrightarrow>
      parse_elems m s = Some (vs, rest)"
    and IHm: "\<And>s kvs rest m. parse_members n s = Some (kvs, rest) \<Longrightarrow> length s \<le> m + length rest \<Longrightarrow>
      parse_members m s = Some (kvs, rest)"
    by blast+
  show ?case
    using parse_value_fuel_step [OF IHe IHm] parse_elems_fuel_step [OF IHv IHe]
          parse_members_fuel_step [OF IHv IHm]
    by blast
qed


lemmas parse_value_adequate = parse_fuel_adequate [THEN conjunct1, rule_format]

text \<open>
  The fuel \<open>JSON_parse\<close> gives its parser, one more than the length of the text, is
  enough: any larger fuel gives the same answer, and no text the recursive descent reads
  with some fuel is refused by \<open>JSON_parse\<close>.
\<close>

lemma parse_fuel_enough:
  assumes "Suc (length s) \<le> n"
  shows "parse_value n s = parse_value (Suc (length s)) s"
proof (cases "parse_value n s")
  case (Some r)
  obtain v rest where "r = (v, rest)" by (cases r)
  with Some show ?thesis using parse_value_adequate [of n s v rest "Suc (length s)"] by simp
next
  case None
  show ?thesis
  proof (cases "parse_value (Suc (length s)) s")
    case (Some r)
    obtain v rest where "r = (v, rest)" by (cases r)
    with Some assms have "parse_value n s = Some (v, rest)"
      using parse_value_adequate [of "Suc (length s)" s v rest n] by simp
    with None show ?thesis by simp
  qed (use None in simp)
qed

lemma JSON_parse_complete:
  assumes "parse_value n s = Some (v, rest)" and "skip_ws rest = []"
  shows "JSON_parse s = Some v"
proof -
  have "length rest < length s" by (rule parse_value_shorter [OF assms(1)])
  then have "parse_value (Suc (length s)) s = Some (v, rest)"
    using parse_value_adequate [OF assms(1)] by simp
  with assms(2) show ?thesis by (simp add: JSON_parse_def)
qed

end
