(* ===== verification/Spec2Isabelle.thy ===== *)
theory Spec2Isabelle
  imports TaskList App JsonFuel
begin

text \<open>
  \<^bold>\<open>A verified model of the to-do list application in \<open>src/list/src\<close>.\<close>

  The program is a browser page. \<open>services/taskService.ts\<close> keeps the tasks as one JSON
  array under the local-storage key \<open>tasks\<close> and rewrites the whole blob on every change;
  \<open>services/userService.ts\<close> keeps an in-memory registry of accounts and a session
  token in the cookie \<open>auth_token\<close> (library js-cookie); \<open>components/TaskList.tsx\<close> is
  the task page, a React component whose handlers call the task service and keep a
  cached copy of the list; \<open>App.tsx\<close> checks the session on mount, shows the login or
  register form or the task page with an avatar (\<open>components/ui/avatar.tsx\<close>), and
  mounts \<open>TaskList\<close> only while a user is shown.

  \<^bold>\<open>Theories.\<close>
  \<^item> \<open>Prelude\<close>: the JavaScript built-ins the services share: \<open>Array.prototype.findIndex\<close>
    (\<open>js_findIndex\<close>, -1 when absent) and the decimal printing of a number
    (\<open>int_to_string\<close>), with their characterisations.
  \<^item> \<open>Json\<close>: JSON values, \<open>JSON.stringify\<close> (\<open>json_stringify\<close>, with string escaping)
    and \<open>JSON.parse\<close> (\<open>JSON_parse\<close>, a recursive-descent parser returning \<open>None\<close> where
    JavaScript throws \<open>SyntaxError\<close>). The parser runs on fuel: \<open>JSON_parse s\<close> gives
    \<open>Suc (length s)\<close>; every nested value consumes at least one character, and
    \<open>size_json_le_length\<close> shows that the fuel suffices for every printed value, so the
    round trip \<open>JSON_parse (json_stringify v) = Some v\<close> holds with no hypothesis.
  \<^item> \<open>JsonFuel\<close>: termination of that parser: each successful step consumes input,
    a successful parse keeps its result under any fuel at least the number of characters
    it read, so the fuel \<open>Suc (length s)\<close> decides every text and running out of fuel
    never turns a well-formed text into a failure.
  \<^item> \<open>ArraySort\<close>: \<open>Array.prototype.sort\<close> with a comparator, as the stable merge sort
    the specification of the built-in requires since ES2019 (\<open>js_sort\<close>); it permutes,
    sorts and equals the library's \<open>sort_key\<close> for a key-difference comparator.
  \<^item> \<open>TaskService\<close>: the \<open>Task\<close> records, the storage encoding, and one definition per
    method of \<open>TaskService\<close> (\<open>getTasks\<close>, \<open>addTask\<close>, \<open>updateTask\<close>, \<open>deleteTask\<close>,
    \<open>getTasksByDateRange\<close>, \<open>getTasksSortedByDate\<close>) over an explicit storage map, with
    errors as \<open>task_error + 'a\<close>. \<open>Date.now()\<close> and \<open>crypto.randomUUID()\<close> are inputs.
    An abstract list store (\<open>spec_update\<close>, \<open>spec_delete\<close>) states the contract and the
    refinement lemmas show that each method implements it through the JSON blob; the
    inductive \<open>store_step\<close> gives the store as a state machine whose invariant (a readable
    blob, unique identifiers, \<open>createdAt \<le> updatedAt\<close>, timestamps not after the clock)
    holds in every reachable state.
  \<^item> \<open>UserService\<close>: accounts, the js-cookie jar (a cookie is visible while the clock is
    before its expiry of 7 days), and \<open>register\<close>, \<open>login\<close>, \<open>logout\<close>,
    \<open>getCurrentUser\<close>, \<open>isAuthenticated\<close>; the session as a run of calls.
  \<^item> \<open>TaskList\<close>: the component's state hooks as a record, every handler
    (\<open>handleAddTask\<close>, \<open>handleEditTask\<close>, \<open>handleDeleteTask\<close>, \<open>toggleTaskDone\<close>, the
    loading effect) and the JSX event wiring as one step function on (view, storage); a
    handler whose promise rejects leaves both unchanged.
  \<^item> \<open>App\<close>: the shell's state, \<open>checkAuth\<close>, \<open>handleLogin\<close>, \<open>handleLogout\<close>, the
    rendered screen and its texts with the \<open>Avatar\<close> widget, page reload (a fresh registry, the same cookies), and the
    \<open>Login\<close>/\<open>Register\<close> forms, which the sources import but do not contain and which
    are modelled from their contract.
  \<^item> This theory: the page as a whole. A system state pairs the shell with the task view;
    \<open>sys_step\<close> mounts \<open>TaskList\<close> (and runs its loading effect) when the shell starts to
    show the task page and drops its state when the page goes away, and delivers task
    events only while the page is shown.

  \<^bold>\<open>What is proved\<close> (claims C1 to C32). Task service: refinement of add, update and
  delete (C1, C2), idempotent delete (C3), the store invariant (C4), that toggling done
  keeps the other fields (C5), that text \<open>JSON.parse\<close> rejects at its first character
  makes every method fail before writing (C6), that a patch may give a task another
  task's identifier (C7), sorting by date (C8) and the date range query after an add
  (C28). Session: duplicate registration (C9), login success and failure (C10, C11),
  unique emails (C12), that authentication rises only by a successful login and falls
  at a given instant only by logout (C13, C14), logout (C15) and that the current user
  is the first account (C16). Task page: its invariant, coherence of view and store
  (C17), toggling (C18), the blank-caption guards of add and save (C19, C31), the
  write-back of a stale cached copy on toggle (C20), saving an edit (C29) and removing a
  card (C30). Shell: the avatar always shows the first account (C21, C22), a reload
  logs the user out (C23), logout (C24) and registration (C25). Whole page: whenever
  the task page is shown its list is the stored list and storage stays well formed
  (C26), the task list is shared by all accounts (C27), and logging in always reaches
  the task page (C32). The termination of the JSON parser (\<open>JsonFuel\<close>) and its round
  trip (\<open>Json\<close>) are library lemmas the claims rest on.

  \<^bold>\<open>Modelling choices.\<close> JavaScript numbers used here are integer millisecond timestamps
  and are \<open>int\<close>. Strings are lists of Isabelle's 8-bit characters, so
  \<open>String.prototype.trim\<close> removes the whitespace code points below 256 (9 to 13, 32,
  160). Asynchronous functions run to completion before the next user event, as the
  single-threaded page with only synchronous storage does; a promise continuation is
  part of the step that started it. The cookie expiry is kept to the millisecond, while
  js-cookie writes it with second precision.

  \<^bold>\<open>Where the model is narrower than the code.\<close> \<open>JSON_parse\<close> accepts JSON whose
  numbers are integers and whose \<open>\u\<close> escapes are below 0x100; it refuses other valid
  JSON (\<open>[1.5]\<close>, \<open>[1e3]\<close>), which \<open>JSON.parse\<close> accepts. The reader of the stored blob
  also requires an array of objects with the six typed members of a \<open>Task\<close>
  (\<open>StorageNotTaskList\<close> otherwise), where the code casts whatever \<open>JSON.parse\<close>
  returns. Both matter only for text the application did not write itself: every blob
  the application writes is read back exactly (the round trip of \<open>Json\<close>), and the
  claims about unreadable storage (C6) are stated on the text, for texts that
  \<open>JSON.parse\<close> rejects too. A patch member present with the value \<open>undefined\<close> is
  treated as absent.

  \<^bold>\<open>Not modelled.\<close> Markup, CSS and the React renderer beyond which screen is shown;
  the avatar's markup beyond its two texts; several tabs
  writing the same storage (only the write-back of a stale view is shown, C20);
  \<open>Date\<close> objects and time zones; the build configuration beyond the production flag.
\<close>

subsection \<open>The page: shell and task list together\<close>

type_synonym sys_state = "(app_state \<times> session_state) \<times> (tasklist_state \<times> local_storage)"

datatype sys_event = AppEvent app_event | ListEvent tasklist_event

definition on_tasks_page :: "app_state \<Rightarrow> bool" where
  "on_tasks_page st = (case render st of TasksScreen _ _ \<Rightarrow> True | _ \<Rightarrow> False)"

definition mount_tasklist :: "local_storage \<Rightarrow> tasklist_state \<times> local_storage" where
  "mount_tasklist ls = tasklist_step (init_tasklist, ls) LoadTasks"

text \<open>
  \<open>{isAuthenticated && user ? ... <TaskList /> ...}\<close>: the task view exists while the
  task page is shown. When the page appears, \<open>TaskList\<close> mounts with its initial state
  and its effect loads the stored list; when it goes away the view state is dropped.
  Storage belongs to the browser and survives both.
\<close>

fun sys_step :: "sys_state \<Rightarrow> sys_event \<Rightarrow> sys_state" where
  "sys_step (a, (lv, ls)) (AppEvent ev) =
     (let a' = app_step a ev
      in (a', if on_tasks_page (fst a') then (if on_tasks_page (fst a) then (lv, ls) else mount_tasklist ls)
              else (init_tasklist, ls)))"
| "sys_step (a, lv) (ListEvent ev) = (if on_tasks_page (fst a) then (a, tasklist_step lv ev) else (a, lv))"

definition sys_run :: "sys_state \<Rightarrow> sys_event list \<Rightarrow> sys_state" where
  "sys_run s evs = foldl sys_step s evs"

text \<open>Storage the task service can read, with the properties the task page relies on.\<close>

definition store_ok :: "local_storage \<Rightarrow> bool" where
  "store_ok ls =
     (case getTasks ls of
        Inl _ \<Rightarrow> False
      | Inr ts \<Rightarrow> distinct (map task_id ts) \<and> list_all (\<lambda>t. js_trim (caption t) \<noteq> []) ts)"

definition sys_event_ok :: "sys_state \<Rightarrow> sys_event \<Rightarrow> bool" where
  "sys_event_ok s ev = (case ev of ListEvent e \<Rightarrow> event_ok (snd s) e | AppEvent _ \<Rightarrow> True)"

inductive sys_reachable :: "sys_state \<Rightarrow> bool" where
  init: "store_ok ls \<Longrightarrow> sys_reachable ((init_app, init_session), (init_tasklist, ls))"
| step: "sys_reachable s \<Longrightarrow> sys_event_ok s ev \<Longrightarrow> sys_reachable (sys_step s ev)"

fun sys_run_ok :: "sys_state \<Rightarrow> sys_event list \<Rightarrow> bool" where
  "sys_run_ok s [] = True"
| "sys_run_ok s (ev # evs) = (sys_event_ok s ev \<and> sys_run_ok (sys_step s ev) evs)"

definition sys_inv :: "sys_state \<Rightarrow> bool" where
  "sys_inv s \<longleftrightarrow>
     store_ok (snd (snd s)) \<and>
     (if on_tasks_page (fst (fst s)) then ui_inv (snd s) else fst (snd s) = init_tasklist)"

subsection \<open>Lemmas\<close>

lemma ui_inv_store_ok:
  "ui_inv (st, ls) \<Longrightarrow> store_ok ls"
  by (simp add: ui_inv_def store_ok_def list_all_iff)

lemma store_ok_mount:
  "store_ok ls \<Longrightarrow> ui_inv (mount_tasklist ls)"
  by (auto simp: store_ok_def mount_tasklist_def tasklist_step_def loadTasks_def ui_inv_def list_all_iff
           split: sum.splits)

lemma mount_tasklist_storage [simp]: "snd (mount_tasklist ls) = ls"
  by (simp add: mount_tasklist_def tasklist_step_def loadTasks_def split: sum.splits)

lemma sys_step_inv:
  assumes inv: "sys_inv s" and ok: "sys_event_ok s ev"
  shows "sys_inv (sys_step s ev)"
proof -
  obtain a lv ls where s: "s = (a, (lv, ls))" by (cases s) auto
  have so: "store_ok ls" using inv s by (simp add: sys_inv_def)
  show ?thesis
  proof (cases ev)
    case (AppEvent e)
    show ?thesis
      using inv so store_ok_mount [OF so] unfolding s AppEvent
      by (simp add: sys_inv_def Let_def split: if_splits)
  next
    case (ListEvent e)
    show ?thesis
    proof (cases "on_tasks_page (fst a)")
      case True
      then have ui: "ui_inv (lv, ls)" using inv s by (simp add: sys_inv_def)
      have eo: "event_ok (lv, ls) e" using ok s ListEvent by (simp add: sys_event_ok_def)
      have ui': "ui_inv (tasklist_step (lv, ls) e)" by (rule tasklist_step_inv [OF ui eo])
      obtain lv' ls' where e': "tasklist_step (lv, ls) e = (lv', ls')" by (cases "tasklist_step (lv, ls) e")
      show ?thesis
        using True ui' ui_inv_store_ok [of lv' ls'] e' unfolding s ListEvent by (simp add: sys_inv_def)
    next
      case False
      then show ?thesis using inv unfolding s ListEvent by simp
    qed
  qed
qed

lemma sys_reachable_sys_inv:
  "sys_reachable s \<Longrightarrow> sys_inv s"
proof (induction rule: sys_reachable.induct)
  case (init ls)
  then show ?case by (simp add: sys_inv_def on_tasks_page_def render_def init_app_def)
next
  case (step s ev)
  then show ?case by (simp add: sys_step_inv)
qed


lemma on_tasks_page_iff:
  "on_tasks_page st \<longleftrightarrow> \<not> isLoading st \<and> app_isAuthenticated st \<and> app_user st \<noteq> None"
  by (auto simp: on_tasks_page_def render_def split: option.splits bool.splits)

lemma mount_tasklist_tasks:
  "getTasks ls = Inr ts \<Longrightarrow> tasks (fst (mount_tasklist ls)) = ts"
  by (simp add: mount_tasklist_def tasklist_step_def loadTasks_def init_tasklist_def)


lemma sys_reachable_run:
  "sys_reachable s \<Longrightarrow> sys_run_ok s evs \<Longrightarrow> sys_reachable (sys_run s evs)"
proof (induction evs arbitrary: s)
  case Nil
  then show ?case by (simp add: sys_run_def)
next
  case (Cons ev evs)
  have "sys_reachable (sys_step s ev)" using Cons.prems by (auto intro: sys_reachable.step)
  then show ?case using Cons.IH Cons.prems by (simp add: sys_run_def)
qed

lemma demo_run_ok:
  "sys_run_ok ((init_app, init_session), (init_tasklist, Map.empty)) [AppEvent (Mount 0), AppEvent (SetShowRegister True), AppEvent (RegisterSubmit \<lparr>reg_firstName = ''Ann'', reg_lastName = ''Smith'', reg_email = ''ann@x'', reg_password = ''p1''\<rparr> ''u1'' 1),
      AppEvent (RegisterSubmit \<lparr>reg_firstName = ''Bob'', reg_lastName = ''Jones'', reg_email = ''bob@x'', reg_password = ''p2''\<rparr> ''u2'' 2), AppEvent (SetShowRegister False),
      AppEvent (LoginSubmit ''bob@x'' ''p2'' 3 3 False),
      ListEvent OpenAddDialog, ListEvent (SetNewCaption ''Buy milk''), ListEvent (AddTaskClick ''t1'' 4 4)]"
  by (simp add: sys_event_ok_def event_ok_def sys_run_def init_app_def init_session_def checkAuth_def render_def register_form_def register_def login_form_def login_def handleLogin_def getCurrentUser_after_login keep_user_def getCurrentUser_no_cookie on_tasks_page_iff mount_tasklist_def tasklist_step_def loadTasks_def init_tasklist_def handleAddTask_def js_trim_def is_js_whitespace_def addTask_eq getTasks_def Let_def task_input.defs task.defs)

lemma demo_run_view:
  "on_tasks_page (fst (fst (sys_run ((init_app, init_session), (init_tasklist, Map.empty))
      [AppEvent (Mount 0), AppEvent (SetShowRegister True), AppEvent (RegisterSubmit \<lparr>reg_firstName = ''Ann'', reg_lastName = ''Smith'', reg_email = ''ann@x'', reg_password = ''p1''\<rparr> ''u1'' 1),
      AppEvent (RegisterSubmit \<lparr>reg_firstName = ''Bob'', reg_lastName = ''Jones'', reg_email = ''bob@x'', reg_password = ''p2''\<rparr> ''u2'' 2), AppEvent (SetShowRegister False),
      AppEvent (LoginSubmit ''bob@x'' ''p2'' 3 3 False),
      ListEvent OpenAddDialog, ListEvent (SetNewCaption ''Buy milk''), ListEvent (AddTaskClick ''t1'' 4 4)]))) \<and>
   map caption (tasks (fst (snd (sys_run ((init_app, init_session), (init_tasklist, Map.empty))
      [AppEvent (Mount 0), AppEvent (SetShowRegister True), AppEvent (RegisterSubmit \<lparr>reg_firstName = ''Ann'', reg_lastName = ''Smith'', reg_email = ''ann@x'', reg_password = ''p1''\<rparr> ''u1'' 1),
      AppEvent (RegisterSubmit \<lparr>reg_firstName = ''Bob'', reg_lastName = ''Jones'', reg_email = ''bob@x'', reg_password = ''p2''\<rparr> ''u2'' 2), AppEvent (SetShowRegister False),
      AppEvent (LoginSubmit ''bob@x'' ''p2'' 3 3 False),
      ListEvent OpenAddDialog, ListEvent (SetNewCaption ''Buy milk''), ListEvent (AddTaskClick ''t1'' 4 4)])))) = [''Buy milk'']"
  by (simp add: sys_run_def init_app_def init_session_def checkAuth_def render_def register_form_def register_def login_form_def login_def handleLogin_def getCurrentUser_after_login keep_user_def getCurrentUser_no_cookie on_tasks_page_iff mount_tasklist_def tasklist_step_def loadTasks_def init_tasklist_def handleAddTask_def js_trim_def is_js_whitespace_def addTask_eq getTasks_def Let_def task_input.defs task.defs)

lemma store_ok_empty: "store_ok Map.empty"
  by (simp add: store_ok_def getTasks_def getTasksFromStorage_def)

lemma demo_run_users:
  "find (\<lambda>u. email u = ''ann@x'' \<and> password u = ''p1'') (users (snd (fst (sys_run ((init_app, init_session), (init_tasklist, Map.empty))
      [AppEvent (Mount 0), AppEvent (SetShowRegister True), AppEvent (RegisterSubmit \<lparr>reg_firstName = ''Ann'', reg_lastName = ''Smith'', reg_email = ''ann@x'', reg_password = ''p1''\<rparr> ''u1'' 1),
      AppEvent (RegisterSubmit \<lparr>reg_firstName = ''Bob'', reg_lastName = ''Jones'', reg_email = ''bob@x'', reg_password = ''p2''\<rparr> ''u2'' 2), AppEvent (SetShowRegister False),
      AppEvent (LoginSubmit ''bob@x'' ''p2'' 3 3 False),
      ListEvent OpenAddDialog, ListEvent (SetNewCaption ''Buy milk''), ListEvent (AddTaskClick ''t1'' 4 4)])))) =
     Some \<lparr>user_id = ''u1'', firstName = ''Ann'', lastName = ''Smith'', email = ''ann@x'', password = ''p1''\<rparr>"
  by (simp add: sys_run_def init_app_def init_session_def checkAuth_def render_def register_form_def register_def login_form_def login_def handleLogin_def getCurrentUser_after_login keep_user_def getCurrentUser_no_cookie on_tasks_page_iff mount_tasklist_def tasklist_step_def loadTasks_def init_tasklist_def handleAddTask_def js_trim_def is_js_whitespace_def addTask_eq getTasks_def Let_def task_input.defs task.defs)

lemma sys_run_app_events:
  "fst (sys_run s (map AppEvent evs)) = app_run (fst s) evs"
proof (induction evs arbitrary: s)
  case Nil
  then show ?case by (simp add: sys_run_def app_run_def)
next
  case (Cons ev evs)
  obtain a lv ls where s: "s = (a, (lv, ls))" by (cases s) auto
  have "fst (sys_step s (AppEvent ev)) = app_step a ev" by (simp add: s Let_def)
  with Cons.IH [of "sys_step s (AppEvent ev)"] show ?case by (simp add: sys_run_def app_run_def s)
qed

lemma mount_not_loading:
  "\<not> isLoading (fst (app_step (st, ss) (Mount t))) \<and> snd (app_step (st, ss) (Mount t)) = ss"
  by (simp add: checkAuth_def Let_def)

lemma login_path:
  assumes nl: "\<not> isLoading st"
    and f: "find (\<lambda>u. email u = e \<and> password u = pw) (users ss) = Some u"
  shows "on_tasks_page (fst (app_run (st, ss) [SetShowRegister False, LoginSubmit e pw nt nc pm]))"
proof (cases "on_tasks_page st")
  case True
  then obtain i n where r: "render st = TasksScreen i n"
    by (auto simp: on_tasks_page_def split: screen.splits)
  show ?thesis using True r by (simp add: app_run_def)
next
  case False
  then have nu: "\<not> (app_isAuthenticated st \<and> app_user st \<noteq> None)" using nl by (simp add: on_tasks_page_iff)
  let ?st2 = "st\<lparr>showRegister := False\<rparr>"
  have r: "render st = LoginScreen \<or> render st = RegisterScreen"
    using nl nu by (auto simp: render_def split: option.splits bool.splits)
  have r2: "render ?st2 = LoginScreen"
    using nl nu by (auto simp: render_def split: option.splits bool.splits)
  have s2: "app_step (st, ss) (SetShowRegister False) = (?st2, ss)" using r by auto
  show ?thesis
    using s2 login_submit_step [OF r2 f, of nt nc pm] nl
    by (simp add: app_run_def on_tasks_page_iff)
qed


lemma sys_run_ok_app_events: "sys_run_ok s (map AppEvent evs)"
  by (induction evs arbitrary: s) (simp_all add: sys_event_ok_def)

lemma logout_leaves_page:
  assumes "on_tasks_page (fst (fst s))"
  shows "\<not> on_tasks_page (fst (fst (sys_step s (AppEvent LogoutClick)))) \<and>
         users (snd (fst (sys_step s (AppEvent LogoutClick)))) = users (snd (fst s))"
proof -
  obtain st ss lv ls where s: "s = ((st, ss), (lv, ls))" by (metis prod.collapse)
  obtain i n where r: "render st = TasksScreen i n"
    using assms s by (auto simp: on_tasks_page_def split: screen.splits)
  then show ?thesis by (simp add: s Let_def handleLogout_def on_tasks_page_iff)
qed

subsection \<open>Properties of the whole page\<close>

text \<open>
  C26. In every state the page reaches from well-formed storage, with fresh identifiers
  for new tasks, the stored blob parses to a list with unique identifiers and no blank
  caption, and whenever the task page is shown the list on screen is exactly the stored
  list, across logins, logouts, reloads and the mounting and unmounting of \<open>TaskList\<close>.
\<close>

theorem tasks_page_shows_store:
  assumes "sys_reachable s"
  shows "store_ok (snd (snd s)) \<and>
         (on_tasks_page (fst (fst s)) \<longrightarrow> getTasks (snd (snd s)) = Inr (tasks (fst (snd s))))"
  using sys_reachable_sys_inv [OF assms]
  by (auto simp: sys_inv_def ui_inv_def split: if_splits)

text \<open>
  C27. The task list is not scoped to an account: from any reachable state showing the
  task page, logging out and logging in with the credentials of any account shows the
  same tasks again (the storage key \<open>tasks\<close> is shared).
\<close>

theorem tasks_shared_between_accounts:
  assumes r: "sys_reachable ((st, ss), (lv, ls))" and p: "on_tasks_page st"
    and f: "find (\<lambda>u. email u = e \<and> password u = pw) (users ss) = Some u"
  shows "on_tasks_page (fst (fst (sys_run ((st, ss), (lv, ls))
            [AppEvent LogoutClick, AppEvent (SetShowRegister False), AppEvent (LoginSubmit e pw nt nc pm)]))) \<and>
         tasks (fst (snd (sys_run ((st, ss), (lv, ls))
            [AppEvent LogoutClick, AppEvent (SetShowRegister False), AppEvent (LoginSubmit e pw nt nc pm)]))) = tasks lv"
proof -
  have ui: "ui_inv (lv, ls)" using sys_reachable_sys_inv [OF r] p by (simp add: sys_inv_def)
  have g: "getTasks ls = Inr (tasks lv)" using ui by (simp add: ui_inv_def)
  have nl: "\<not> isLoading st" using p by (simp add: on_tasks_page_iff)
  obtain i n where rt: "render st = TasksScreen i n" using p by (auto simp: on_tasks_page_def split: screen.splits)
  let ?st1 = "st\<lparr>app_isAuthenticated := False, app_user := None\<rparr>"
  let ?st2 = "?st1\<lparr>showRegister := False\<rparr>"
  have s1: "app_step (st, ss) LogoutClick = (?st1, logout ss)" using rt by (simp add: handleLogout_def)
  have np1: "\<not> on_tasks_page ?st1" by (simp add: on_tasks_page_iff)
  have r1: "render ?st1 = LoginScreen \<or> render ?st1 = RegisterScreen" using nl by (simp add: render_no_user)
  have s2: "app_step (?st1, logout ss) (SetShowRegister False) = (?st2, logout ss)" using r1 by auto
  have r2: "render ?st2 = LoginScreen" using nl by (simp add: render_no_user)
  have np2: "\<not> on_tasks_page ?st2" by (simp add: on_tasks_page_iff)
  have f': "find (\<lambda>u. email u = e \<and> password u = pw) (users (logout ss)) = Some u" using f by simp
  have s3: "app_step (?st2, logout ss) (LoginSubmit e pw nt nc pm) =
      (?st2\<lparr>app_isAuthenticated := True, app_user := Some (public_user (hd (users (logout ss))))\<rparr>,
       setAuthToken (logout ss) (''demo_token_'' @ int_to_string nt) pm nc)"
    by (rule login_submit_step [OF r2 f'])
  have p3: "on_tasks_page (?st2\<lparr>app_isAuthenticated := True, app_user := Some (public_user (hd (users (logout ss))))\<rparr>)"
    using nl by (simp add: on_tasks_page_iff)
  show ?thesis
    using s1 s2 s3 p p3 np1 np2 mount_tasklist_tasks [OF g]
    by (simp add: sys_run_def Let_def del: app_step.simps)
qed

text \<open>
  C32. Liveness of logging in: from every reachable state of the page, with the email
  and password of any registered account, the events mount, "Already have an account?"
  and login submission (each ignored where its element is not shown) always end on the
  task page, which then shows the stored list.
\<close>

theorem login_reaches_tasks_page:
  assumes r: "sys_reachable s"
    and f: "find (\<lambda>u. email u = e \<and> password u = pw) (users (snd (fst s))) = Some u"
  shows "on_tasks_page (fst (fst (sys_run s
           [AppEvent (Mount t), AppEvent (SetShowRegister False), AppEvent (LoginSubmit e pw nt nc pm)]))) \<and>
         getTasks (snd (snd (sys_run s
           [AppEvent (Mount t), AppEvent (SetShowRegister False), AppEvent (LoginSubmit e pw nt nc pm)]))) =
         Inr (tasks (fst (snd (sys_run s
           [AppEvent (Mount t), AppEvent (SetShowRegister False), AppEvent (LoginSubmit e pw nt nc pm)]))))"
proof -
  let ?evs = "[Mount t, SetShowRegister False, LoginSubmit e pw nt nc pm]"
  have evs: "[AppEvent (Mount t), AppEvent (SetShowRegister False), AppEvent (LoginSubmit e pw nt nc pm)] =
             map AppEvent ?evs" by simp
  obtain st ss where a: "fst s = (st, ss)" by (cases "fst s")
  obtain st1 where a1: "app_step (st, ss) (Mount t) = (st1, ss)" and nl: "\<not> isLoading st1"
    using mount_not_loading [of st ss t] by (metis prod.collapse)
  have f1: "find (\<lambda>u. email u = e \<and> password u = pw) (users ss) = Some u" using f a by simp
  have p: "on_tasks_page (fst (app_run (st, ss) ?evs))"
    using login_path [OF nl f1, of nt nc pm] a1 by (simp add: app_run_def)
  have "sys_reachable (sys_run s (map AppEvent ?evs))"
    by (rule sys_reachable_run [OF r sys_run_ok_app_events])
  then have i: "sys_inv (sys_run s (map AppEvent ?evs))" by (rule sys_reachable_sys_inv)
  have p': "on_tasks_page (fst (fst (sys_run s (map AppEvent ?evs))))"
    using p a by (simp only: sys_run_app_events)
  show ?thesis unfolding evs using p' i by (simp add: sys_inv_def ui_inv_def)
qed

theorem tasks_page_shows_store_witness:
  "let s = sys_run ((init_app, init_session), (init_tasklist, Map.empty))
      [AppEvent (Mount 0), AppEvent (SetShowRegister True), AppEvent (RegisterSubmit \<lparr>reg_firstName = ''Ann'', reg_lastName = ''Smith'', reg_email = ''ann@x'', reg_password = ''p1''\<rparr> ''u1'' 1),
      AppEvent (RegisterSubmit \<lparr>reg_firstName = ''Bob'', reg_lastName = ''Jones'', reg_email = ''bob@x'', reg_password = ''p2''\<rparr> ''u2'' 2), AppEvent (SetShowRegister False),
      AppEvent (LoginSubmit ''bob@x'' ''p2'' 3 3 False),
      ListEvent OpenAddDialog, ListEvent (SetNewCaption ''Buy milk''), ListEvent (AddTaskClick ''t1'' 4 4)]
   in sys_reachable s \<and> store_ok (snd (snd s)) \<and> on_tasks_page (fst (fst s)) \<and>
      getTasks (snd (snd s)) = Inr (tasks (fst (snd s))) \<and> map caption (tasks (fst (snd s))) = [''Buy milk'']"
proof -
  have r: "sys_reachable (sys_run ((init_app, init_session), (init_tasklist, Map.empty))
      [AppEvent (Mount 0), AppEvent (SetShowRegister True), AppEvent (RegisterSubmit \<lparr>reg_firstName = ''Ann'', reg_lastName = ''Smith'', reg_email = ''ann@x'', reg_password = ''p1''\<rparr> ''u1'' 1),
      AppEvent (RegisterSubmit \<lparr>reg_firstName = ''Bob'', reg_lastName = ''Jones'', reg_email = ''bob@x'', reg_password = ''p2''\<rparr> ''u2'' 2), AppEvent (SetShowRegister False),
      AppEvent (LoginSubmit ''bob@x'' ''p2'' 3 3 False),
      ListEvent OpenAddDialog, ListEvent (SetNewCaption ''Buy milk''), ListEvent (AddTaskClick ''t1'' 4 4)])"
    by (rule sys_reachable_run [OF sys_reachable.init [OF store_ok_empty] demo_run_ok])
  show ?thesis using tasks_page_shows_store [OF r] r demo_run_view by (simp add: Let_def)
qed

theorem tasks_shared_between_accounts_witness:
  "let s = sys_run ((init_app, init_session), (init_tasklist, Map.empty))
      [AppEvent (Mount 0), AppEvent (SetShowRegister True), AppEvent (RegisterSubmit \<lparr>reg_firstName = ''Ann'', reg_lastName = ''Smith'', reg_email = ''ann@x'', reg_password = ''p1''\<rparr> ''u1'' 1),
      AppEvent (RegisterSubmit \<lparr>reg_firstName = ''Bob'', reg_lastName = ''Jones'', reg_email = ''bob@x'', reg_password = ''p2''\<rparr> ''u2'' 2), AppEvent (SetShowRegister False),
      AppEvent (LoginSubmit ''bob@x'' ''p2'' 3 3 False),
      ListEvent OpenAddDialog, ListEvent (SetNewCaption ''Buy milk''), ListEvent (AddTaskClick ''t1'' 4 4)];
       s' = sys_run s [AppEvent LogoutClick, AppEvent (SetShowRegister False), AppEvent (LoginSubmit ''ann@x'' ''p1'' 5 5 False)]
   in sys_reachable s \<and> on_tasks_page (fst (fst s)) \<and>
      on_tasks_page (fst (fst s')) \<and> map caption (tasks (fst (snd s'))) = [''Buy milk'']"
proof -
  let ?s = "sys_run ((init_app, init_session), (init_tasklist, Map.empty))
      [AppEvent (Mount 0), AppEvent (SetShowRegister True), AppEvent (RegisterSubmit \<lparr>reg_firstName = ''Ann'', reg_lastName = ''Smith'', reg_email = ''ann@x'', reg_password = ''p1''\<rparr> ''u1'' 1),
      AppEvent (RegisterSubmit \<lparr>reg_firstName = ''Bob'', reg_lastName = ''Jones'', reg_email = ''bob@x'', reg_password = ''p2''\<rparr> ''u2'' 2), AppEvent (SetShowRegister False),
      AppEvent (LoginSubmit ''bob@x'' ''p2'' 3 3 False),
      ListEvent OpenAddDialog, ListEvent (SetNewCaption ''Buy milk''), ListEvent (AddTaskClick ''t1'' 4 4)]"
  obtain st ss lv ls where e: "?s = ((st, ss), (lv, ls))" by (metis prod.collapse)
  have r: "sys_reachable ((st, ss), (lv, ls))"
    unfolding e [symmetric] by (rule sys_reachable_run [OF sys_reachable.init [OF store_ok_empty] demo_run_ok])
  have p: "on_tasks_page st" and c: "map caption (tasks lv) = [''Buy milk'']"
    using demo_run_view unfolding e by simp_all
  have f: "find (\<lambda>u. email u = ''ann@x'' \<and> password u = ''p1'') (users ss) =
     Some \<lparr>user_id = ''u1'', firstName = ''Ann'', lastName = ''Smith'', email = ''ann@x'', password = ''p1''\<rparr>"
    using demo_run_users unfolding e by simp
  show ?thesis
    using tasks_shared_between_accounts [OF r p f, of 5 5 False] r p c unfolding e by (simp add: Let_def)
qed

theorem login_reaches_tasks_page_witness:
  "let s = sys_step (sys_run ((init_app, init_session), (init_tasklist, Map.empty))
      [AppEvent (Mount 0), AppEvent (SetShowRegister True), AppEvent (RegisterSubmit \<lparr>reg_firstName = ''Ann'', reg_lastName = ''Smith'', reg_email = ''ann@x'', reg_password = ''p1''\<rparr> ''u1'' 1),
      AppEvent (RegisterSubmit \<lparr>reg_firstName = ''Bob'', reg_lastName = ''Jones'', reg_email = ''bob@x'', reg_password = ''p2''\<rparr> ''u2'' 2), AppEvent (SetShowRegister False),
      AppEvent (LoginSubmit ''bob@x'' ''p2'' 3 3 False),
      ListEvent OpenAddDialog, ListEvent (SetNewCaption ''Buy milk''), ListEvent (AddTaskClick ''t1'' 4 4)]) (AppEvent LogoutClick)
   in sys_reachable s \<and> \<not> on_tasks_page (fst (fst s)) \<and>
      find (\<lambda>u. email u = ''ann@x'' \<and> password u = ''p1'') (users (snd (fst s))) = Some \<lparr>user_id = ''u1'', firstName = ''Ann'', lastName = ''Smith'', email = ''ann@x'', password = ''p1''\<rparr> \<and>
      on_tasks_page (fst (fst (sys_run s
        [AppEvent (Mount 9), AppEvent (SetShowRegister False), AppEvent (LoginSubmit ''ann@x'' ''p1'' 10 10 False)])))"
proof -
  let ?S = "sys_run ((init_app, init_session), (init_tasklist, Map.empty))
      [AppEvent (Mount 0), AppEvent (SetShowRegister True), AppEvent (RegisterSubmit \<lparr>reg_firstName = ''Ann'', reg_lastName = ''Smith'', reg_email = ''ann@x'', reg_password = ''p1''\<rparr> ''u1'' 1),
      AppEvent (RegisterSubmit \<lparr>reg_firstName = ''Bob'', reg_lastName = ''Jones'', reg_email = ''bob@x'', reg_password = ''p2''\<rparr> ''u2'' 2), AppEvent (SetShowRegister False),
      AppEvent (LoginSubmit ''bob@x'' ''p2'' 3 3 False),
      ListEvent OpenAddDialog, ListEvent (SetNewCaption ''Buy milk''), ListEvent (AddTaskClick ''t1'' 4 4)]"
  have r0: "sys_reachable ?S"
    by (rule sys_reachable_run [OF sys_reachable.init [OF store_ok_empty] demo_run_ok])
  have r: "sys_reachable (sys_step ?S (AppEvent LogoutClick))"
    by (rule sys_reachable.step [OF r0]) (simp add: sys_event_ok_def)
  note l = logout_leaves_page [OF demo_run_view [THEN conjunct1]]
  have f: "find (\<lambda>u. email u = ''ann@x'' \<and> password u = ''p1'') (users (snd (fst (sys_step ?S (AppEvent LogoutClick))))) =
      Some \<lparr>user_id = ''u1'', firstName = ''Ann'', lastName = ''Smith'', email = ''ann@x'', password = ''p1''\<rparr>"
    using l demo_run_users by simp
  show ?thesis using login_reaches_tasks_page [OF r f, of 9 10 10 False] r l f by (simp add: Let_def)
qed

end
